theory Spec2Isabelle
  imports Complex_Main
begin

section \<open>Dense matrices\<close>

text \<open>
  \<^verbatim>\<open>Eigen::MatrixXd\<close> is a dense matrix of doubles that carries its own row and column
  count; \<^verbatim>\<open>Eigen::VectorXd\<close> is the same type with one column.  A matrix is a record
  of the two counts and the coefficient function; a vector is a matrix with \<open>cols = 1\<close>
  whose entries are read at column \<open>0\<close>.  A double is a real number: every statement
  below is about exact arithmetic, rounding is outside the model.
\<close>

record matrix =
  rows :: nat
  cols :: nat
  coeff :: "nat \<Rightarrow> nat \<Rightarrow> real"

text \<open>\<^verbatim>\<open>MatrixXd::Zero(r, c)\<close> and \<^verbatim>\<open>VectorXd::Zero(r)\<close>.\<close>

definition Zero :: "nat \<Rightarrow> nat \<Rightarrow> matrix" where
  "Zero r c = \<lparr>rows = r, cols = c, coeff = (\<lambda>i j. 0)\<rparr>"

text \<open>
  \<^verbatim>\<open>Eigen::MatrixXd M(r, c)\<close> allocates without initialising: the \<open>r * c\<close> coefficients
  hold whatever the allocator left there, here the argument \<open>u\<close>.  Outside the bounds
  there is no storage; the coefficient function is \<open>0\<close> there.
\<close>

definition uninitialized :: "(nat \<Rightarrow> nat \<Rightarrow> real) \<Rightarrow> nat \<Rightarrow> nat \<Rightarrow> matrix" where
  "uninitialized u r c =
     \<lparr>rows = r, cols = c, coeff = (\<lambda>i j. if i < r \<and> j < c then u i j else 0)\<rparr>"

definition transpose_m :: "matrix \<Rightarrow> matrix" where
  "transpose_m M = \<lparr>rows = cols M, cols = rows M, coeff = (\<lambda>i j. coeff M j i)\<rparr>"

definition mat_mul :: "matrix \<Rightarrow> matrix \<Rightarrow> matrix" where
  "mat_mul M N =
     \<lparr>rows = rows M, cols = cols N,
      coeff = (\<lambda>i j. \<Sum>k<cols M. coeff M i k * coeff N k j)\<rparr>"

definition mat_add :: "matrix \<Rightarrow> matrix \<Rightarrow> matrix" where
  "mat_add M N =
     \<lparr>rows = rows M, cols = cols M, coeff = (\<lambda>i j. coeff M i j + coeff N i j)\<rparr>"

definition mat_sub :: "matrix \<Rightarrow> matrix \<Rightarrow> matrix" where
  "mat_sub M N =
     \<lparr>rows = rows M, cols = cols M, coeff = (\<lambda>i j. coeff M i j - coeff N i j)\<rparr>"

definition mat_neg :: "matrix \<Rightarrow> matrix" where
  "mat_neg M = \<lparr>rows = rows M, cols = cols M, coeff = (\<lambda>i j. - coeff M i j)\<rparr>"

text \<open>\<^verbatim>\<open>x.dot(y)\<close> of two vectors.\<close>

definition dot :: "matrix \<Rightarrow> matrix \<Rightarrow> real" where
  "dot x y = (\<Sum>i<rows x. coeff x i 0 * coeff y i 0)"

text \<open>\<^verbatim>\<open>M.col(i)\<close>: column \<open>i\<close> as a vector.\<close>

definition col :: "matrix \<Rightarrow> nat \<Rightarrow> matrix" where
  "col M i = \<lparr>rows = rows M, cols = 1, coeff = (\<lambda>r c. coeff M r i)\<rparr>"

text \<open>\<^verbatim>\<open>v.segment(s, n)\<close>: the \<open>n\<close> entries of a vector that start at \<open>s\<close>.\<close>

definition segment :: "matrix \<Rightarrow> nat \<Rightarrow> nat \<Rightarrow> matrix" where
  "segment v s n = \<lparr>rows = n, cols = 1, coeff = (\<lambda>i j. coeff v (s + i) j)\<rparr>"

text \<open>
  \<^verbatim>\<open>M.block(r0, c0, nr, nc) = src\<close> (and \<^verbatim>\<open>v.segment(r0, nr) = src\<close>, the block with
  \<open>c0 = 0\<close> and \<open>nc = 1\<close>): the coefficients of the block are overwritten, the others kept.
\<close>

definition set_block :: "matrix \<Rightarrow> nat \<Rightarrow> nat \<Rightarrow> nat \<Rightarrow> nat \<Rightarrow> matrix \<Rightarrow> matrix" where
  "set_block M r0 c0 nr nc src =
     M\<lparr>coeff := (\<lambda>i j. if r0 \<le> i \<and> i < r0 + nr \<and> c0 \<le> j \<and> j < c0 + nc
                        then coeff src (i - r0) (j - c0) else coeff M i j)\<rparr>"

text \<open>\<^verbatim>\<open>M(i, j) += v\<close>.\<close>

definition add_coeff :: "matrix \<Rightarrow> nat \<Rightarrow> nat \<Rightarrow> real \<Rightarrow> matrix" where
  "add_coeff M i j v =
     M\<lparr>coeff := (\<lambda>r c. if r = i \<and> c = j then coeff M r c + v else coeff M r c)\<rparr>"

section \<open>The decompositions\<close>

text \<open>
  The solver calls three decompositions of the Eigen library: \<^verbatim>\<open>LLT\<close> (its \<^verbatim>\<open>info()\<close>
  and its \<^verbatim>\<open>solve\<close>), \<^verbatim>\<open>FullPivHouseholderQR::solve\<close> and \<^verbatim>\<open>JacobiSVD::solve\<close>.
  Eigen is not part of the repository, so the three are parameters of the model:
  a record of functions from the decomposed matrix and the right-hand side to the result.
\<close>

datatype ComputationInfo = Success | NumericalIssue | NoConvergence | InvalidInput

record eigen =
  llt_info :: "matrix \<Rightarrow> ComputationInfo"
  llt_solve :: "matrix \<Rightarrow> matrix \<Rightarrow> matrix"
  qr_solve :: "matrix \<Rightarrow> matrix \<Rightarrow> matrix"
  svd_solve :: "matrix \<Rightarrow> matrix \<Rightarrow> matrix"

section \<open>The mathematical program\<close>

text \<open>
  A binding pairs a cost or constraint with the decision variables it is over.
  A decision variable is identified by a number; \<^verbatim>\<open>FindDecisionVariableIndex\<close> of the
  program (a field here, the framework's function is outside the solver) gives its index.
\<close>

type_synonym var = nat

record quadratic_binding =
  qc_Q :: matrix
  qc_b :: matrix
  qc_variables :: "var list"

record equality_binding =
  ec_A :: matrix
  ec_lower_bound :: matrix
  ec_upper_bound :: matrix
  ec_variables :: "var list"

text \<open>
  Modelled from the spec: the enumerations \<^verbatim>\<open>SolutionResult\<close> and \<^verbatim>\<open>SolverType\<close> are
  declared in headers that are not among the sources.  The solver names
  \<^verbatim>\<open>kSolutionFound\<close> and \<^verbatim>\<open>kEqualityConstrainedQP\<close>; the other outcomes are the failure,
  infeasible and unbounded outcomes the specification speaks of.
\<close>

datatype SolutionResult =
  kSolutionFound | kInvalidInput | kInfeasibleConstraints | kUnbounded | kUnknownError

datatype SolverType = kEqualityConstrainedQP | kOtherSolver

text \<open>
  The bindings of the kinds the solver does not support are only tested for emptiness;
  they are lists of an opaque binding.
\<close>

datatype other_binding = OtherBinding nat

record program =
  num_vars :: nat
  FindDecisionVariableIndex :: "var \<Rightarrow> nat"
  quadratic_costs :: "quadratic_binding list"
  linear_equality_constraints :: "equality_binding list"
  generic_constraints :: "other_binding list"
  generic_costs :: "other_binding list"
  linear_constraints :: "other_binding list"
  bounding_box_constraints :: "other_binding list"
  linear_complementarity_constraints :: "other_binding list"
  decision_variable_values :: matrix
  optimal_cost :: real
  solver_result :: "(SolverType \<times> int) option"

section \<open>Assembling the problem\<close>

text \<open>
  The counts and indices of the source are \<^verbatim>\<open>int\<close> and \<^verbatim>\<open>size_t\<close>; a dense matrix
  whose side is near their range does not fit in memory, and they are natural numbers
  here.  An index outside a matrix is undefined in the source (Eigen checks it in debug
  builds only); the terms of a program refer to its own decision variables, whose
  indices are below \<open>num_vars\<close>.

  Lines 53 to 56: the number of constraint rows is the sum of the row counts of the
  equality constraints.
\<close>

definition num_constraints :: "program \<Rightarrow> nat" where
  "num_constraints prog =
     fold (\<lambda>binding n. n + rows (ec_A binding)) (linear_equality_constraints prog) 0"

text \<open>
  Lines 61 to 77, the body of the loop over the quadratic costs: the global indices of the
  binding's variables are looked up, then every \<open>Q(i, j)\<close> is added to \<open>G\<close> and every
  \<open>b(i)\<close> to \<open>c\<close> at the global indices.
\<close>

definition add_quadratic_cost ::
  "program \<Rightarrow> quadratic_binding \<Rightarrow> matrix \<times> matrix \<Rightarrow> matrix \<times> matrix" where
  "add_quadratic_cost prog binding Gc =
     (let Q = qc_Q binding;
          b = qc_b binding;
          num_v_variables = length (qc_variables binding);
          v_index = map (FindDecisionVariableIndex prog) (qc_variables binding)
      in fold (\<lambda>i (G, c).
                 (fold (\<lambda>j G. add_coeff G (v_index ! i) (v_index ! j) (coeff Q i j))
                       [0..<num_v_variables] G,
                  add_coeff c (v_index ! i) 0 (coeff b i 0)))
              [0..<num_v_variables] Gc)"

definition assemble_cost :: "program \<Rightarrow> matrix \<times> matrix" where
  "assemble_cost prog =
     fold (add_quadratic_cost prog) (quadratic_costs prog)
          (Zero (num_vars prog) (num_vars prog), Zero (num_vars prog) 1)"

text \<open>
  Lines 83 to 98, the body of the loop over the equality constraints.  The state is
  \<open>A\<close>, \<open>b\<close> and the row cursor \<open>constraint_index\<close>: column \<open>i\<close> of the binding's matrix
  is written to the column of its variable in the rows that start at the cursor, the
  lower bound is written to the same rows of \<open>b\<close>, and the cursor advances.
\<close>

definition add_equality_constraint ::
  "program \<Rightarrow> equality_binding \<Rightarrow> matrix \<times> matrix \<times> nat \<Rightarrow> matrix \<times> matrix \<times> nat" where
  "add_equality_constraint prog binding Abk =
     (case Abk of (A, b, constraint_index) \<Rightarrow>
      let bc_A = ec_A binding;
          n = rows bc_A;
          num_v_variables = length (ec_variables binding);
          A' = fold (\<lambda>i A. set_block A constraint_index
                              (FindDecisionVariableIndex prog (ec_variables binding ! i)) n 1
                              (col bc_A i))
                    [0..<num_v_variables] A;
          b' = set_block b constraint_index 0 n 1 (segment (ec_lower_bound binding) 0 n)
      in (A', b', constraint_index + n))"

definition assemble_constraints :: "program \<Rightarrow> matrix \<times> matrix \<times> nat" where
  "assemble_constraints prog =
     fold (add_equality_constraint prog) (linear_equality_constraints prog)
          (Zero (num_constraints prog) (num_vars prog), Zero (num_constraints prog) 1, 0)"

section \<open>Solving\<close>

text \<open>
  Lines 105 to 111: the multipliers of the range-space approach, named \<open>lambda\<close> in the
  source.
\<close>

definition range_space_lambda :: "eigen \<Rightarrow> matrix \<Rightarrow> matrix \<Rightarrow> matrix \<Rightarrow> matrix \<Rightarrow> matrix" where
  "range_space_lambda E G c A b =
     (let AiG_T = llt_solve E G (transpose_m A)
      in qr_solve E (mat_mul A AiG_T) (mat_add (mat_mul (transpose_m AiG_T) c) b))"

text \<open>Line 114.\<close>

definition range_space_x :: "eigen \<Rightarrow> matrix \<Rightarrow> matrix \<Rightarrow> matrix \<Rightarrow> matrix \<Rightarrow> matrix" where
  "range_space_x E G c A b =
     llt_solve E G (mat_sub (mat_mul (transpose_m A) (range_space_lambda E G c A b)) c)"

text \<open>
  Lines 129 to 141: the matrix and the right-hand side of the full system.  Both are
  allocated uninitialised (\<open>uA\<close> and \<open>ub\<close> are what the memory holds) and then written
  block by block.
\<close>

definition kkt_matrix :: "(nat \<Rightarrow> nat \<Rightarrow> real) \<Rightarrow> nat \<Rightarrow> matrix \<Rightarrow> matrix \<Rightarrow> matrix" where
  "kkt_matrix uA num_full_vars G A =
     (let A_full = uninitialized uA num_full_vars num_full_vars;
          A_full = set_block A_full 0 0 (rows G) (cols G) G;
          A_full = set_block A_full 0 (cols G) (cols A) (rows A) (mat_neg (transpose_m A));
          A_full = set_block A_full (rows G) 0 (rows A) (cols A) A;
          A_full = set_block A_full (rows G) (cols G) (rows A) (rows A) (Zero (rows A) (rows A))
      in A_full)"

definition kkt_rhs :: "(nat \<Rightarrow> nat \<Rightarrow> real) \<Rightarrow> nat \<Rightarrow> matrix \<Rightarrow> matrix \<Rightarrow> matrix \<Rightarrow> matrix \<Rightarrow> matrix" where
  "kkt_rhs ub num_full_vars G c A b =
     (let b_full = uninitialized ub num_full_vars 1;
          b_full = set_block b_full 0 0 (rows G) 1 (mat_neg c);
          b_full = set_block b_full (rows G) 0 (rows A) 1 b
      in b_full)"

text \<open>Lines 116 and 149: \<^verbatim>\<open>0.5 * x.dot(G * x + c)\<close>.\<close>

definition reported_cost :: "matrix \<Rightarrow> matrix \<Rightarrow> matrix \<Rightarrow> real" where
  "reported_cost G c x = 0.5 * dot x (mat_add (mat_mul G x) c)"

text \<open>
  \<^verbatim>\<open>DRAKE_ASSERT\<close> aborts the process when its condition is false and assertions are
  armed (a property of the build, the argument \<open>armed\<close>); otherwise it does nothing.
\<close>

datatype abort = DrakeAssertFailed

definition DRAKE_ASSERT :: "bool \<Rightarrow> bool \<Rightarrow> abort + unit" where
  "DRAKE_ASSERT armed cond = (if armed \<and> \<not> cond then Inl DrakeAssertFailed else Inr ())"

definition then_assert :: "abort + unit \<Rightarrow> abort + unit \<Rightarrow> abort + unit" where
  "then_assert r s = (case r of Inl e \<Rightarrow> Inl e | Inr u \<Rightarrow> s)"

text \<open>Lines 47 to 51.\<close>

definition assertions :: "bool \<Rightarrow> program \<Rightarrow> abort + unit" where
  "assertions armed prog =
     then_assert (DRAKE_ASSERT armed (generic_constraints prog = []))
    (then_assert (DRAKE_ASSERT armed (generic_costs prog = []))
    (then_assert (DRAKE_ASSERT armed (linear_constraints prog = []))
    (then_assert (DRAKE_ASSERT armed (bounding_box_constraints prog = []))
                 (DRAKE_ASSERT armed (linear_complementarity_constraints prog = [])))))"

text \<open>
  \<^verbatim>\<open>EqualityConstrainedQPSolver::Solve\<close>.  The program is passed by reference and
  written to; the model returns the outcome together with the program after the call.
\<close>

definition Solve ::
  "bool \<Rightarrow> eigen \<Rightarrow> (nat \<Rightarrow> nat \<Rightarrow> real) \<Rightarrow> (nat \<Rightarrow> nat \<Rightarrow> real) \<Rightarrow> program
     \<Rightarrow> abort + (SolutionResult \<times> program)" where
  "Solve armed E uA ub prog =
     (case assertions armed prog of
        Inl e \<Rightarrow> Inl e
      | Inr u \<Rightarrow>
          (let (G, c) = assemble_cost prog;
               (A, b, constraint_index) = assemble_constraints prog
           in
           if llt_info E G = Success then
             let x = range_space_x E G c A b;
                 prog = prog\<lparr>decision_variable_values := x\<rparr>;
                 prog = prog\<lparr>optimal_cost := reported_cost G c x\<rparr>;
                 prog = prog\<lparr>solver_result := Some (kEqualityConstrainedQP, 0)\<rparr>
             in Inr (kSolutionFound, prog)
           else
             let num_full_vars = num_vars prog + num_constraints prog;
                 A_full = kkt_matrix uA num_full_vars G A;
                 b_full = kkt_rhs ub num_full_vars G c A b;
                 sol = svd_solve E A_full b_full;
                 x = segment sol 0 (num_vars prog);
                 prog = prog\<lparr>decision_variable_values := x\<rparr>;
                 prog = prog\<lparr>optimal_cost := reported_cost G c x\<rparr>;
                 prog = prog\<lparr>solver_result := Some (kEqualityConstrainedQP, 0)\<rparr>
             in Inr (kSolutionFound, prog)))"

text \<open>The assembled problem \<open>(G, c, A, b)\<close> of a program.\<close>

definition asm_G :: "program \<Rightarrow> matrix" where
  "asm_G prog = fst (assemble_cost prog)"

definition asm_c :: "program \<Rightarrow> matrix" where
  "asm_c prog = snd (assemble_cost prog)"

definition asm_A :: "program \<Rightarrow> matrix" where
  "asm_A prog = fst (assemble_constraints prog)"

definition asm_b :: "program \<Rightarrow> matrix" where
  "asm_b prog = fst (snd (assemble_constraints prog))"

text \<open>
  The precondition of the solver: no cost or constraint of another kind than quadratic
  costs and linear equality constraints.
\<close>

definition supported :: "program \<Rightarrow> bool" where
  "supported prog \<longleftrightarrow>
     generic_constraints prog = [] \<and> generic_costs prog = [] \<and> linear_constraints prog = [] \<and>
     bounding_box_constraints prog = [] \<and> linear_complementarity_constraints prog = []"

text \<open>
  The vector that \<open>Solve\<close> writes to the decision variables: line 114 on the first
  branch, line 146 on the second.
\<close>

definition chosen_x :: "eigen \<Rightarrow> (nat \<Rightarrow> nat \<Rightarrow> real) \<Rightarrow> (nat \<Rightarrow> nat \<Rightarrow> real) \<Rightarrow> program \<Rightarrow> matrix" where
  "chosen_x E uA ub prog =
     (if llt_info E (asm_G prog) = Success
      then range_space_x E (asm_G prog) (asm_c prog) (asm_A prog) (asm_b prog)
      else segment (svd_solve E
              (kkt_matrix uA (num_vars prog + num_constraints prog) (asm_G prog) (asm_A prog))
              (kkt_rhs ub (num_vars prog + num_constraints prog) (asm_G prog) (asm_c prog)
                 (asm_A prog) (asm_b prog))) 0 (num_vars prog))"

text \<open>
  Lines 115 to 119 and 147 to 153, the same on both branches: \<open>x\<close>, the reported cost and
  the solver's identity are written to the program, and the outcome is
  \<^verbatim>\<open>kSolutionFound\<close>.
\<close>

definition solved_with :: "program \<Rightarrow> matrix \<Rightarrow> abort + (SolutionResult \<times> program)" where
  "solved_with prog x =
     Inr (kSolutionFound,
          prog\<lparr>decision_variable_values := x,
               optimal_cost := reported_cost (asm_G prog) (asm_c prog) x,
               solver_result := Some (kEqualityConstrainedQP, 0)\<rparr>)"

section \<open>What the specification says\<close>

text \<open>
  The objective of the quadratic program, \<open>1/2 x'Gx + c'x\<close> (the comment at line 25 and
  the specification).
\<close>

definition objective :: "matrix \<Rightarrow> matrix \<Rightarrow> matrix \<Rightarrow> real" where
  "objective G c x = 1/2 * dot x (mat_mul G x) + dot c x"

text \<open>
  The contribution of one quadratic cost term to the entry \<open>(p, q)\<close> of the Hessian and to
  the entry \<open>p\<close> of the linear cost: the sum of the local entries whose global indices
  are \<open>(p, q)\<close>, respectively \<open>p\<close>.
\<close>

definition scatter_Q :: "program \<Rightarrow> quadratic_binding \<Rightarrow> nat \<Rightarrow> nat \<Rightarrow> real" where
  "scatter_Q prog t p q =
     (\<Sum>i<length (qc_variables t). \<Sum>j<length (qc_variables t).
        if FindDecisionVariableIndex prog (qc_variables t ! i) = p \<and>
           FindDecisionVariableIndex prog (qc_variables t ! j) = q
        then coeff (qc_Q t) i j else 0)"

definition scatter_b :: "program \<Rightarrow> quadratic_binding \<Rightarrow> nat \<Rightarrow> real" where
  "scatter_b prog t p =
     (\<Sum>i<length (qc_variables t).
        if FindDecisionVariableIndex prog (qc_variables t ! i) = p
        then coeff (qc_b t) i 0 else 0)"

text \<open>The global index of the \<open>i\<close>-th variable of an equality constraint term.\<close>

definition global_index :: "program \<Rightarrow> equality_binding \<Rightarrow> nat \<Rightarrow> nat" where
  "global_index prog t i = FindDecisionVariableIndex prog (ec_variables t ! i)"

text \<open>The first row of the block of the \<open>k\<close>-th equality constraint term.\<close>

definition row_offset :: "program \<Rightarrow> nat \<Rightarrow> nat" where
  "row_offset prog k =
     sum_list (map (\<lambda>t. rows (ec_A t)) (take k (linear_equality_constraints prog)))"

text \<open>
  Strategy A of the specification (range space): with the solve operator of the factored
  \<open>G\<close> and a least-squares solve, \<open>M\<close> solves \<open>G M = A'\<close>, \<open>S = A M\<close>, \<open>y\<close> solves
  \<open>S y = M'c + b\<close> and \<open>x\<close> solves \<open>G x = A'y - c\<close>.
\<close>

definition strategy_A ::
  "(matrix \<Rightarrow> matrix) \<Rightarrow> (matrix \<Rightarrow> matrix \<Rightarrow> matrix) \<Rightarrow> matrix \<Rightarrow> matrix \<Rightarrow> matrix \<Rightarrow> matrix" where
  "strategy_A solve_G least_squares c A b =
     (let M = solve_G (transpose_m A);
          S = mat_mul A M;
          y = least_squares S (mat_add (mat_mul (transpose_m M) c) b)
      in solve_G (mat_sub (mat_mul (transpose_m A) y) c))"

text \<open>
  Strategy B of the specification (full system): the augmented matrix with the blocks
  \<open>G\<close>, \<open>-A'\<close>, \<open>A\<close> and \<open>0\<close>, the augmented right-hand side with \<open>-c\<close> above \<open>b\<close>, a
  singular-value least-squares solve, and the first \<open>n\<close> entries of its solution.
\<close>

definition augmented_matrix :: "nat \<Rightarrow> nat \<Rightarrow> matrix \<Rightarrow> matrix \<Rightarrow> matrix" where
  "augmented_matrix n m G A =
     \<lparr>rows = n + m, cols = n + m,
      coeff = (\<lambda>i j. if i < n \<and> j < n then coeff G i j
                      else if i < n \<and> j < n + m then - coeff A (j - n) i
                      else if i < n + m \<and> j < n then coeff A (i - n) j
                      else 0)\<rparr>"

definition augmented_rhs :: "nat \<Rightarrow> nat \<Rightarrow> matrix \<Rightarrow> matrix \<Rightarrow> matrix" where
  "augmented_rhs n m c b =
     \<lparr>rows = n + m, cols = 1,
      coeff = (\<lambda>i j. if j = 0 \<and> i < n then - coeff c i 0
                      else if j = 0 \<and> i < n + m then coeff b (i - n) 0
                      else 0)\<rparr>"

definition strategy_B ::
  "(matrix \<Rightarrow> matrix \<Rightarrow> matrix) \<Rightarrow> nat \<Rightarrow> nat \<Rightarrow> matrix \<Rightarrow> matrix \<Rightarrow> matrix \<Rightarrow> matrix \<Rightarrow> matrix" where
  "strategy_B singular_value_solve n m G c A b =
     segment (singular_value_solve (augmented_matrix n m G A) (augmented_rhs n m c b)) 0 n"

subsection \<open>The decompositions in exact arithmetic\<close>

definition symmetric :: "matrix \<Rightarrow> bool" where
  "symmetric G \<longleftrightarrow>
     rows G = cols G \<and> (\<forall>i<rows G. \<forall>j<rows G. coeff G i j = coeff G j i)"

definition quadratic_form :: "matrix \<Rightarrow> (nat \<Rightarrow> real) \<Rightarrow> real" where
  "quadratic_form G z = (\<Sum>i<rows G. z i * (\<Sum>j<cols G. coeff G i j * z j))"

definition positive_definite :: "matrix \<Rightarrow> bool" where
  "positive_definite G \<longleftrightarrow> (\<forall>z. (\<exists>i<rows G. z i \<noteq> 0) \<longrightarrow> 0 < quadratic_form G z)"

text \<open>Full row rank: no nontrivial combination of the rows is zero.\<close>

definition full_row_rank :: "matrix \<Rightarrow> bool" where
  "full_row_rank A \<longleftrightarrow>
     (\<forall>y. (\<forall>j<cols A. (\<Sum>i<rows A. coeff A i j * y i) = 0) \<longrightarrow> (\<forall>i<rows A. y i = 0))"

definition nonsingular :: "matrix \<Rightarrow> bool" where
  "nonsingular S \<longleftrightarrow>
     rows S = cols S \<and>
     (\<forall>y. (\<forall>i<rows S. (\<Sum>j<cols S. coeff S i j * y j) = 0) \<longrightarrow> (\<forall>j<cols S. y j = 0))"

text \<open>\<open>X\<close> has the shape of a solution of \<open>M X = B\<close> and satisfies it entry by entry.\<close>

definition solves :: "matrix \<Rightarrow> matrix \<Rightarrow> matrix \<Rightarrow> bool" where
  "solves M X B \<longleftrightarrow>
     rows X = cols M \<and> cols X = cols B \<and>
     (\<forall>i<rows M. \<forall>j<cols B. coeff (mat_mul M X) i j = coeff B i j)"

text \<open>
  Modelled from the spec: the decompositions are Eigen's, which is not among the sources.
  The specification describes them as a Cholesky-type factorization attempt that tests
  whether \<open>G\<close> is positive definite and is then a linear solve operator for \<open>G\<close>, a
  full-pivoting orthogonal factorization used as a least-squares solve, and a
  singular-value-based least-squares solve.  In exact arithmetic, on a symmetric \<open>G\<close>:
  the factorization succeeds exactly when \<open>G\<close> is positive definite and its solve
  then returns a solution; the orthogonal factorization returns the solution of a
  nonsingular system; the singular-value solve returns a solution of every system that
  has one.
\<close>

definition llt_exact :: "eigen \<Rightarrow> matrix \<Rightarrow> bool" where
  "llt_exact E G \<longleftrightarrow>
     (symmetric G \<longrightarrow>
        (llt_info E G = Success \<longleftrightarrow> positive_definite G) \<and>
        (llt_info E G = Success \<longrightarrow>
           (\<forall>B. rows B = rows G \<longrightarrow> solves G (llt_solve E G B) B)))"

definition qr_exact :: "eigen \<Rightarrow> matrix \<Rightarrow> bool" where
  "qr_exact E S \<longleftrightarrow>
     (nonsingular S \<longrightarrow> (\<forall>r. rows r = rows S \<longrightarrow> solves S (qr_solve E S r) r))"

definition svd_exact :: "eigen \<Rightarrow> matrix \<Rightarrow> bool" where
  "svd_exact E M \<longleftrightarrow>
     (\<forall>r. (\<exists>z. solves M z r) \<longrightarrow> solves M (svd_solve E M r) r)"

section \<open>Examples\<close>

text \<open>A matrix given by its rows.\<close>

definition of_rows :: "nat \<Rightarrow> real list list \<Rightarrow> matrix" where
  "of_rows nc rs =
     \<lparr>rows = length rs, cols = nc,
      coeff = (\<lambda>i j. if i < length rs \<and> j < length (rs ! i) then rs ! i ! j else 0)\<rparr>"

text \<open>A program with \<open>n\<close> variables, numbered by their indices, and the given terms.\<close>

definition mk_program :: "nat \<Rightarrow> quadratic_binding list \<Rightarrow> equality_binding list \<Rightarrow> program" where
  "mk_program n qs es =
     \<lparr>num_vars = n, FindDecisionVariableIndex = (\<lambda>v. v),
      quadratic_costs = qs, linear_equality_constraints = es,
      generic_constraints = [], generic_costs = [], linear_constraints = [],
      bounding_box_constraints = [], linear_complementarity_constraints = [],
      decision_variable_values = Zero n 1, optimal_cost = 0, solver_result = None\<rparr>"

definition mk_cost :: "real list list \<Rightarrow> real list \<Rightarrow> var list \<Rightarrow> quadratic_binding" where
  "mk_cost Q b vs =
     \<lparr>qc_Q = of_rows (length vs) Q, qc_b = of_rows 1 (map (\<lambda>v. [v]) b), qc_variables = vs\<rparr>"

definition mk_equality :: "real list list \<Rightarrow> real list \<Rightarrow> var list \<Rightarrow> equality_binding" where
  "mk_equality A b vs =
     \<lparr>ec_A = of_rows (length vs) A, ec_lower_bound = of_rows 1 (map (\<lambda>v. [v]) b),
      ec_upper_bound = of_rows 1 (map (\<lambda>v. [v]) b), ec_variables = vs\<rparr>"

text \<open>
  Two cost terms over overlapping variables: \<open>Q = [[2, 0], [0, 2]]\<close> over the variables
  \<open>0\<close> and \<open>1\<close>, and \<open>Q = [[3]]\<close> over the variable \<open>1\<close>.
\<close>

definition overlap_prog :: program where
  "overlap_prog =
     mk_program 2 [mk_cost [[2, 0], [0, 2]] [0, 0] [0, 1], mk_cost [[3]] [0] [1]] []"

text \<open>
  Two equality terms with two and three rows, the first over the variables \<open>0\<close> and
  \<open>2\<close>, the second over the variable \<open>1\<close>, in a program with three variables.
\<close>

definition stacked_prog :: program where
  "stacked_prog =
     mk_program 3 []
       [mk_equality [[1, 2], [3, 4]] [5, 6] [0, 2],
        mk_equality [[7], [8], [9]] [10, 11, 12] [1]]"

text \<open>Minimise \<open>x1^2 + x2^2\<close> subject to \<open>x1 + x2 = 1\<close>.\<close>

definition convex_prog :: program where
  "convex_prog =
     mk_program 2 [mk_cost [[2, 0], [0, 2]] [0, 0] [0, 1]] [mk_equality [[1, 1]] [1] [0, 1]]"

text \<open>The same assembled problem from two cost terms that add up.\<close>

definition convex_prog_split :: program where
  "convex_prog_split =
     mk_program 2 [mk_cost [[1, 0], [0, 1]] [0, 0] [0, 1], mk_cost [[1, 0], [0, 1]] [0, 0] [0, 1]]
       [mk_equality [[1, 1]] [1] [0, 1]]"

text \<open>Minimise \<open>2 x^2 - 4 x\<close> without constraints: \<open>G = [[4]]\<close> and \<open>c = [-4]\<close>.\<close>

definition linear_term_prog :: program where
  "linear_term_prog = mk_program 1 [mk_cost [[4]] [- 4] [0]] []"

text \<open>No cost, and the constraints \<open>x1 = 3\<close> and \<open>x2 = 4\<close>.\<close>

definition degenerate_prog :: program where
  "degenerate_prog = mk_program 2 [] [mk_equality [[1, 0], [0, 1]] [3, 4] [0, 1]]"

text \<open>
  An instance of the decompositions for the examples, exact on the systems that occur
  there: the factorization test and the two solves of a diagonal matrix (division by the
  diagonal), and the least-squares solve of an orthogonal matrix (multiplication by the
  transpose).
\<close>

definition diagonal_solve :: "matrix \<Rightarrow> matrix \<Rightarrow> matrix" where
  "diagonal_solve M B =
     \<lparr>rows = cols M, cols = cols B, coeff = (\<lambda>i j. coeff B i j / coeff M i i)\<rparr>"

definition example_eigen :: eigen where
  "example_eigen =
     \<lparr>llt_info = (\<lambda>G. if list_all (\<lambda>i. 0 < coeff G i i) [0..<rows G]
                        then Success else NumericalIssue),
      llt_solve = diagonal_solve,
      qr_solve = diagonal_solve,
      svd_solve = (\<lambda>M r. mat_mul (transpose_m M) r)\<rparr>"

text \<open>Two different contents of uninitialised memory.\<close>

definition garbage0 :: "nat \<Rightarrow> nat \<Rightarrow> real" where
  "garbage0 i j = 0"

definition garbage1 :: "nat \<Rightarrow> nat \<Rightarrow> real" where
  "garbage1 i j = real (i + 2 * j) + 7"

section \<open>The cost loops\<close>

lemma rows_add_coeff [simp]: "rows (add_coeff M i j v) = rows M"
  and cols_add_coeff [simp]: "cols (add_coeff M i j v) = cols M"
  and coeff_add_coeff: "coeff (add_coeff M i j v) p q = (if p = i \<and> q = j then coeff M p q + v else coeff M p q)"
  by (simp_all add: add_coeff_def)

lemma inner_loop:
  "coeff (fold (\<lambda>j G. add_coeff G r (g j) (f j)) [0..<k] G) p q =
     coeff G p q + (\<Sum>j<k. if r = p \<and> g j = q then f j else 0)"
  by (induction k) (auto simp add: coeff_add_coeff)

lemma inner_loop_dims:
  "rows (fold (\<lambda>j G. add_coeff G r (g j) (f j)) [0..<k] G) = rows G \<and>
   cols (fold (\<lambda>j G. add_coeff G r (g j) (f j)) [0..<k] G) = cols G"
  by (induction k) simp_all

lemma outer_loop:
  "fold (\<lambda>i (G, c). (fold (\<lambda>j G. add_coeff G (g i) (g j) (Q i j)) [0..<n] G,
                            add_coeff c (g i) 0 (b i))) [0..<k] (G, c) = (G', c') \<Longrightarrow>
   rows G' = rows G \<and> cols G' = cols G \<and> rows c' = rows c \<and> cols c' = cols c \<and>
   coeff G' p q = coeff G p q + (\<Sum>i<k. \<Sum>j<n. if g i = p \<and> g j = q then Q i j else 0) \<and>
   coeff c' p 0 = coeff c p 0 + (\<Sum>i<k. if g i = p then b i else 0)"
proof (induction k arbitrary: G' c')
  case 0
  then show ?case by simp
next
  case (Suc k)
  obtain G1 c1 where s: "fold (\<lambda>i (G, c). (fold (\<lambda>j G. add_coeff G (g i) (g j) (Q i j)) [0..<n] G,
                            add_coeff c (g i) 0 (b i))) [0..<k] (G, c) = (G1, c1)"
    by (cases "fold (\<lambda>i (G, c). (fold (\<lambda>j G. add_coeff G (g i) (g j) (Q i j)) [0..<n] G,
                            add_coeff c (g i) 0 (b i))) [0..<k] (G, c)") 
  from Suc.prems s have G': "G' = fold (\<lambda>j G. add_coeff G (g k) (g j) (Q k j)) [0..<n] G1"
    and c': "c' = add_coeff c1 (g k) 0 (b k)" by simp_all
  from Suc.IH[OF s] show ?case
    by (auto simp add: G' c' inner_loop inner_loop_dims coeff_add_coeff)
qed

lemma add_quadratic_cost_spec:
  assumes "add_quadratic_cost prog t (G, c) = (G', c')"
  shows "rows G' = rows G \<and> cols G' = cols G \<and> rows c' = rows c \<and> cols c' = cols c \<and>
         coeff G' p q = coeff G p q + scatter_Q prog t p q \<and>
         coeff c' p 0 = coeff c p 0 + scatter_b prog t p"
proof -
  let ?g = "\<lambda>i. map (FindDecisionVariableIndex prog) (qc_variables t) ! i"
  have eq: "(\<Sum>i<length (qc_variables t). \<Sum>j<length (qc_variables t).
               if ?g i = p \<and> ?g j = q then coeff (qc_Q t) i j else 0) = scatter_Q prog t p q"
    unfolding scatter_Q_def by (intro sum.cong refl) simp
  have eq2: "(\<Sum>i<length (qc_variables t). if ?g i = p then coeff (qc_b t) i 0 else 0)
               = scatter_b prog t p"
    unfolding scatter_b_def by (intro sum.cong refl) simp
  from assms have "fold (\<lambda>i (G, c).
       (fold (\<lambda>j G. add_coeff G (?g i) (?g j) (coeff (qc_Q t) i j)) [0..<length (qc_variables t)] G,
        add_coeff c (?g i) 0 (coeff (qc_b t) i 0))) [0..<length (qc_variables t)] (G, c) = (G', c')"
    by (simp add: add_quadratic_cost_def Let_def)
  from outer_loop[OF this, of p q] show ?thesis
    by (simp only: eq eq2)
qed

lemma fold_cost_spec:
  assumes "fold (add_quadratic_cost prog) ts (G, c) = (G', c')"
  shows "rows G' = rows G \<and> cols G' = cols G \<and> rows c' = rows c \<and> cols c' = cols c \<and>
         coeff G' p q = coeff G p q + (\<Sum>t\<leftarrow>ts. scatter_Q prog t p q) \<and>
         coeff c' p 0 = coeff c p 0 + (\<Sum>t\<leftarrow>ts. scatter_b prog t p)"
  using assms
proof (induction ts arbitrary: G c)
  case Nil
  then show ?case by simp
next
  case (Cons t ts)
  obtain G1 c1 where s: "add_quadratic_cost prog t (G, c) = (G1, c1)"
    by (cases "add_quadratic_cost prog t (G, c)")
  with Cons.prems have "fold (add_quadratic_cost prog) ts (G1, c1) = (G', c')" by simp
  from Cons.IH[OF this] add_quadratic_cost_spec[OF s, of p q] show ?case by simp
qed

lemma asm_cost_pair: "assemble_cost prog = (asm_G prog, asm_c prog)"
  by (simp add: asm_G_def asm_c_def)

lemma asm_G_spec:
  "rows (asm_G prog) = num_vars prog \<and> cols (asm_G prog) = num_vars prog \<and>
   coeff (asm_G prog) p q = (\<Sum>t\<leftarrow>quadratic_costs prog. scatter_Q prog t p q)"
  using fold_cost_spec[of prog "quadratic_costs prog" "Zero (num_vars prog) (num_vars prog)"
      "Zero (num_vars prog) 1" "asm_G prog" "asm_c prog" p q]
  by (simp add: asm_cost_pair[symmetric] assemble_cost_def Zero_def)

lemma asm_c_spec:
  "rows (asm_c prog) = num_vars prog \<and> cols (asm_c prog) = 1 \<and>
   coeff (asm_c prog) p 0 = (\<Sum>t\<leftarrow>quadratic_costs prog. scatter_b prog t p)"
  using fold_cost_spec[of prog "quadratic_costs prog" "Zero (num_vars prog) (num_vars prog)"
      "Zero (num_vars prog) 1" "asm_G prog" "asm_c prog" p 0]
  by (simp add: asm_cost_pair[symmetric] assemble_cost_def Zero_def)

section \<open>The constraint loop\<close>

lemma rows_set_block [simp]: "rows (set_block M r0 c0 nr nc src) = rows M"
  and cols_set_block [simp]: "cols (set_block M r0 c0 nr nc src) = cols M"
  and coeff_set_block: "coeff (set_block M r0 c0 nr nc src) i j =
        (if r0 \<le> i \<and> i < r0 + nr \<and> c0 \<le> j \<and> j < c0 + nc
         then coeff src (i - r0) (j - c0) else coeff M i j)"
  by (simp_all add: set_block_def)

lemma col_loop_dims:
  "rows (fold (\<lambda>i A. set_block A ci (g i) n (Suc 0) (col S i)) [0..<k] A) = rows A \<and>
   cols (fold (\<lambda>i A. set_block A ci (g i) n (Suc 0) (col S i)) [0..<k] A) = cols A"
  by (induction k) simp_all

lemma col_loop_other_row:
  "\<not> (ci \<le> \<rho> \<and> \<rho> < ci + n) \<Longrightarrow>
   coeff (fold (\<lambda>i A. set_block A ci (g i) n (Suc 0) (col S i)) [0..<k] A) \<rho> p = coeff A \<rho> p"
  by (induction k) (auto simp add: coeff_set_block)

lemma col_loop_other_col:
  "\<forall>i<k. g i \<noteq> p \<Longrightarrow>
   coeff (fold (\<lambda>i A. set_block A ci (g i) n (Suc 0) (col S i)) [0..<k] A) \<rho> p = coeff A \<rho> p"
  by (induction k) (auto simp add: coeff_set_block)

lemma col_loop_written:
  "i < k \<Longrightarrow> \<forall>i'. i < i' \<and> i' < k \<longrightarrow> g i' \<noteq> g i \<Longrightarrow> ci \<le> \<rho> \<Longrightarrow> \<rho> < ci + n \<Longrightarrow>
   coeff (fold (\<lambda>i A. set_block A ci (g i) n (Suc 0) (col S i)) [0..<k] A) \<rho> (g i) = coeff S (\<rho> - ci) i"
proof (induction k)
  case 0
  then show ?case by simp
next
  case (Suc k)
  show ?case
  proof (cases "i = k")
    case True
    with Suc.prems show ?thesis by (simp add: coeff_set_block col_def)
  next
    case False
    with Suc.prems have ik: "i < k" and ne: "g k \<noteq> g i" by auto
    from Suc.prems have "\<forall>i'. i < i' \<and> i' < k \<longrightarrow> g i' \<noteq> g i" by auto
    from Suc.IH[OF ik this Suc.prems(3,4)] ne show ?thesis
      by (simp add: coeff_set_block)
  qed
qed

lemma add_equality_constraint_eq:
  "add_equality_constraint prog t (A, b, ci) =
     (fold (\<lambda>i A. set_block A ci (global_index prog t i) (rows (ec_A t)) 1 (col (ec_A t) i))
           [0..<length (ec_variables t)] A,
      set_block b ci 0 (rows (ec_A t)) 1 (segment (ec_lower_bound t) 0 (rows (ec_A t))),
      ci + rows (ec_A t))"
  by (simp add: add_equality_constraint_def Let_def global_index_def)

lemma fold_constraints_cursor:
  assumes "fold (add_equality_constraint prog) ts (A, b, ci) = (A', b', ci')"
  shows "ci' = ci + sum_list (map (\<lambda>t. rows (ec_A t)) ts) \<and>
         rows A' = rows A \<and> cols A' = cols A \<and> rows b' = rows b \<and> cols b' = cols b"
  using assms
proof (induction ts arbitrary: A b ci)
  case Nil
  then show ?case by simp
next
  case (Cons t ts)
  let ?A1 = "fold (\<lambda>i A. set_block A ci (global_index prog t i) (rows (ec_A t)) 1 (col (ec_A t) i))
           [0..<length (ec_variables t)] A"
  let ?b1 = "set_block b ci 0 (rows (ec_A t)) 1 (segment (ec_lower_bound t) 0 (rows (ec_A t)))"
  from Cons.prems have f: "fold (add_equality_constraint prog) ts (?A1, ?b1, ci + rows (ec_A t)) = (A', b', ci')"
    by (simp add: add_equality_constraint_eq)
  from Cons.IH[OF f] show ?case
    by (simp add: col_loop_dims)
qed

lemma fold_constraints_below:
  assumes "fold (add_equality_constraint prog) ts (A, b, ci) = (A', b', ci')" and "\<rho> < ci"
  shows "coeff A' \<rho> p = coeff A \<rho> p \<and> coeff b' \<rho> q = coeff b \<rho> q"
  using assms
proof (induction ts arbitrary: A b ci)
  case Nil
  then show ?case by simp
next
  case (Cons t ts)
  let ?A1 = "fold (\<lambda>i A. set_block A ci (global_index prog t i) (rows (ec_A t)) 1 (col (ec_A t) i))
           [0..<length (ec_variables t)] A"
  let ?b1 = "set_block b ci 0 (rows (ec_A t)) 1 (segment (ec_lower_bound t) 0 (rows (ec_A t)))"
  from Cons.prems have f: "fold (add_equality_constraint prog) ts (?A1, ?b1, ci + rows (ec_A t)) = (A', b', ci')"
    by (simp add: add_equality_constraint_eq)
  from Cons.prems have "\<rho> < ci + rows (ec_A t)" by simp
  from Cons.IH[OF f this] Cons.prems(2) show ?case
    by (simp add: col_loop_other_row coeff_set_block)
qed

lemma fold_constraints_term:
  assumes "fold (add_equality_constraint prog) ts (A, b, ci) = (A', b', ci')"
    and "k < length ts" and "r < rows (ec_A (ts ! k))"
  shows "(\<forall>i<length (ec_variables (ts ! k)).
            (\<forall>i'. i < i' \<and> i' < length (ec_variables (ts ! k))
                   \<longrightarrow> global_index prog (ts ! k) i' \<noteq> global_index prog (ts ! k) i) \<longrightarrow>
            coeff A' (ci + sum_list (map (\<lambda>t. rows (ec_A t)) (take k ts)) + r)
                  (global_index prog (ts ! k) i) = coeff (ec_A (ts ! k)) r i) \<and>
         (\<forall>p. (\<forall>i<length (ec_variables (ts ! k)). global_index prog (ts ! k) i \<noteq> p) \<longrightarrow>
            coeff A' (ci + sum_list (map (\<lambda>t. rows (ec_A t)) (take k ts)) + r) p =
            coeff A (ci + sum_list (map (\<lambda>t. rows (ec_A t)) (take k ts)) + r) p) \<and>
         coeff b' (ci + sum_list (map (\<lambda>t. rows (ec_A t)) (take k ts)) + r) 0 =
           coeff (ec_lower_bound (ts ! k)) r 0"
  using assms
proof (induction ts arbitrary: A b ci k)
  case Nil
  then show ?case by simp
next
  case (Cons t ts)
  let ?A1 = "fold (\<lambda>i A. set_block A ci (global_index prog t i) (rows (ec_A t)) 1 (col (ec_A t) i))
           [0..<length (ec_variables t)] A"
  let ?b1 = "set_block b ci 0 (rows (ec_A t)) 1 (segment (ec_lower_bound t) 0 (rows (ec_A t)))"
  from Cons.prems have f: "fold (add_equality_constraint prog) ts (?A1, ?b1, ci + rows (ec_A t)) = (A', b', ci')"
    by (simp add: add_equality_constraint_eq)
  show ?case
  proof (cases k)
    case 0
    with Cons.prems have r: "r < rows (ec_A t)" by simp
    then have below: "ci + r < ci + rows (ec_A t)" by simp
    have A': "coeff A' (ci + r) p = coeff ?A1 (ci + r) p" for p
      using fold_constraints_below[OF f below] by simp
    have b': "coeff b' (ci + r) 0 = coeff ?b1 (ci + r) 0"
      using fold_constraints_below[OF f below] by simp
    show ?thesis using r
      by (simp add: 0 A' b' col_loop_written col_loop_other_col coeff_set_block segment_def)
  next
    case (Suc k')
    with Cons.prems have k': "k' < length ts" and r: "r < rows (ec_A (ts ! k'))" by simp_all
    have "coeff ?A1 (ci + rows (ec_A t) + sum_list (map (\<lambda>t. rows (ec_A t)) (take k' ts)) + r) p
        = coeff A (ci + rows (ec_A t) + sum_list (map (\<lambda>t. rows (ec_A t)) (take k' ts)) + r) p" for p
      by (simp add: col_loop_other_row)
    with Cons.IH[OF f k' r] show ?thesis
      by (simp add: Suc add.assoc)
  qed
qed

lemma num_constraints_fold:
  "fold (\<lambda>binding n. n + rows (ec_A binding)) ts n0 = n0 + sum_list (map (\<lambda>t. rows (ec_A t)) ts)"
  by (induction ts arbitrary: n0) simp_all

lemma num_constraints_sum:
  "num_constraints prog = sum_list (map (\<lambda>t. rows (ec_A t)) (linear_equality_constraints prog))"
  by (simp add: num_constraints_def num_constraints_fold)

lemma asm_constraints_triple:
  "assemble_constraints prog = (asm_A prog, asm_b prog, snd (snd (assemble_constraints prog)))"
  by (simp add: asm_A_def asm_b_def)

lemma asm_constraints_fold:
  "fold (add_equality_constraint prog) (linear_equality_constraints prog)
     (Zero (num_constraints prog) (num_vars prog), Zero (num_constraints prog) 1, 0) =
   (asm_A prog, asm_b prog, snd (snd (assemble_constraints prog)))"
  using asm_constraints_triple[of prog] by (simp add: assemble_constraints_def)

lemma asm_A_dims:
  "rows (asm_A prog) = num_constraints prog \<and> cols (asm_A prog) = num_vars prog \<and>
   rows (asm_b prog) = num_constraints prog \<and> cols (asm_b prog) = 1 \<and>
   snd (snd (assemble_constraints prog)) = num_constraints prog"
  using fold_constraints_cursor[OF asm_constraints_fold, of prog]
  by (simp add: Zero_def num_constraints_sum)

lemma asm_constraints_eq:
  "assemble_constraints prog = (asm_A prog, asm_b prog, num_constraints prog)"
  using asm_constraints_triple[of prog] asm_A_dims[of prog] by simp

lemma row_offset_Suc:
  "k < length (linear_equality_constraints prog) \<Longrightarrow>
   row_offset prog (Suc k) = row_offset prog k + rows (ec_A (linear_equality_constraints prog ! k))"
  by (simp add: row_offset_def take_Suc_conv_app_nth)

lemma row_offset_le:
  "k \<le> length (linear_equality_constraints prog) \<Longrightarrow> row_offset prog k \<le> num_constraints prog"
proof -
  assume "k \<le> length (linear_equality_constraints prog)"
  have "sum_list (map (\<lambda>t. rows (ec_A t)) (take k (linear_equality_constraints prog)))
        + sum_list (map (\<lambda>t. rows (ec_A t)) (drop k (linear_equality_constraints prog)))
        = sum_list (map (\<lambda>t. rows (ec_A t)) (linear_equality_constraints prog))"
    by (simp flip: sum_list_append map_append)
  then show ?thesis by (simp add: row_offset_def num_constraints_sum)
qed

lemma cursor_after:
  "snd (snd (fold (add_equality_constraint prog) (take k (linear_equality_constraints prog))
     (Zero (num_constraints prog) (num_vars prog), Zero (num_constraints prog) 1, 0)))
   = row_offset prog k"
proof -
  obtain A' b' ci' where f: "fold (add_equality_constraint prog) (take k (linear_equality_constraints prog))
     (Zero (num_constraints prog) (num_vars prog), Zero (num_constraints prog) 1, 0) = (A', b', ci')"
    using prod_cases3 by blast
  from fold_constraints_cursor[OF f] show ?thesis unfolding f row_offset_def by simp
qed

section \<open>The solver\<close>

lemma assertions_supported: "supported prog \<Longrightarrow> assertions armed prog = Inr ()"
  by (simp add: supported_def assertions_def DRAKE_ASSERT_def then_assert_def)

lemma assertions_unarmed: "assertions False prog = Inr ()"
  by (simp add: assertions_def DRAKE_ASSERT_def then_assert_def)

lemma assertions_cases: "assertions armed prog = Inr () \<longleftrightarrow> (armed \<longrightarrow> supported prog)"
  by (auto simp add: supported_def assertions_def DRAKE_ASSERT_def then_assert_def)

lemma Solve_eq:
  assumes "assertions armed prog = Inr ()"
  shows "Solve armed E uA ub prog = solved_with prog (chosen_x E uA ub prog)"
  using assms
  by (simp add: Solve_def asm_cost_pair asm_constraints_eq Let_def chosen_x_def solved_with_def)

lemma Solve_abort:
  assumes "assertions armed prog \<noteq> Inr ()"
  shows "Solve armed E uA ub prog = Inl DrakeAssertFailed"
proof -
  from assms obtain e where "assertions armed prog = Inl e" by (cases "assertions armed prog") auto
  then show ?thesis by (cases e) (simp add: Solve_def)
qed

lemma kkt_matrix_eq:
  assumes "rows G = n" "cols G = n" "rows A = m" "cols A = n"
  shows "kkt_matrix uA (n + m) G A = augmented_matrix n m G A"
  using assms
  by (auto simp add: kkt_matrix_def augmented_matrix_def uninitialized_def set_block_def Let_def
      mat_neg_def transpose_m_def Zero_def fun_eq_iff)

lemma kkt_rhs_eq:
  assumes "rows G = n" "rows A = m"
  shows "kkt_rhs ub (n + m) G c A b = augmented_rhs n m c b"
  using assms
  by (auto simp add: kkt_rhs_def augmented_rhs_def uninitialized_def set_block_def Let_def
      mat_neg_def fun_eq_iff)

section \<open>Linear algebra of the range-space approach\<close>

lemma schur_sym:
  fixes g a M :: "nat \<Rightarrow> nat \<Rightarrow> real"
  assumes sym: "\<forall>i<n. \<forall>j<n. g i j = g j i"
    and GM: "\<forall>i<n. \<forall>j<m. (\<Sum>k<n. g i k * M k j) = a j i"
    and i: "i < m" and j: "j < m"
  shows "(\<Sum>l<n. a i l * M l j) = (\<Sum>l<n. a j l * M l i)"
proof -
  have L: "(\<Sum>l<n. a i l * M l j) = (\<Sum>l<n. \<Sum>k<n. g l k * M k i * M l j)"
    using GM i by (intro sum.cong refl) (simp flip: sum_distrib_right)
  have R: "(\<Sum>l<n. a j l * M l i) = (\<Sum>l<n. \<Sum>k<n. g l k * M k j * M l i)"
    using GM j by (intro sum.cong refl) (simp flip: sum_distrib_right)
  have "(\<Sum>l<n. \<Sum>k<n. g l k * M k j * M l i) = (\<Sum>k<n. \<Sum>l<n. g l k * M k j * M l i)"
    by (rule sum.swap)
  also have "\<dots> = (\<Sum>k<n. \<Sum>l<n. g k l * M l i * M k j)"
    using sym by (intro sum.cong refl) simp
  finally show ?thesis using L R by simp
qed

lemma range_space_feasible:
  fixes g a M :: "nat \<Rightarrow> nat \<Rightarrow> real" and x y b c :: "nat \<Rightarrow> real"
  assumes sym: "\<forall>i<n. \<forall>j<n. g i j = g j i"
    and GM: "\<forall>i<n. \<forall>j<m. (\<Sum>k<n. g i k * M k j) = a j i"
    and Sy: "\<forall>i<m. (\<Sum>j<m. (\<Sum>l<n. a i l * M l j) * y j) = (\<Sum>k<n. M k i * c k) + b i"
    and Gx: "\<forall>i<n. (\<Sum>k<n. g i k * x k) = (\<Sum>j<m. a j i * y j) - c i"
    and i: "i < m"
  shows "(\<Sum>k<n. a i k * x k) = b i"
proof -
  have "(\<Sum>k<n. a i k * x k) = (\<Sum>k<n. \<Sum>l<n. g k l * M l i * x k)"
    using GM i by (intro sum.cong refl) (simp flip: sum_distrib_right)
  also have "\<dots> = (\<Sum>l<n. \<Sum>k<n. g k l * M l i * x k)"
    by (rule sum.swap)
  also have "\<dots> = (\<Sum>l<n. M l i * (\<Sum>k<n. g l k * x k))"
    using sym by (intro sum.cong refl) (simp add: sum_distrib_left mult_ac)
  also have "\<dots> = (\<Sum>l<n. M l i * ((\<Sum>j<m. a j l * y j) - c l))"
    using Gx by (intro sum.cong refl) simp
  also have "\<dots> = (\<Sum>l<n. \<Sum>j<m. a j l * M l i * y j) - (\<Sum>l<n. M l i * c l)"
    by (simp add: right_diff_distrib sum_subtractf sum_distrib_left mult_ac)
  also have "(\<Sum>l<n. \<Sum>j<m. a j l * M l i * y j) = (\<Sum>j<m. \<Sum>l<n. a j l * M l i * y j)"
    by (rule sum.swap)
  also have "\<dots> = (\<Sum>j<m. (\<Sum>l<n. a j l * M l i) * y j)"
    by (simp add: sum_distrib_right)
  also have "\<dots> = (\<Sum>j<m. (\<Sum>l<n. a i l * M l j) * y j)"
    using schur_sym[OF sym GM i] by (intro sum.cong refl) simp
  also have "\<dots> = (\<Sum>k<n. M k i * c k) + b i"
    using Sy i by simp
  finally show ?thesis by simp
qed

lemma pd_zero:
  fixes g :: "nat \<Rightarrow> nat \<Rightarrow> real" and z :: "nat \<Rightarrow> real"
  assumes PD: "\<forall>z. (\<exists>i<n. z i \<noteq> 0) \<longrightarrow> 0 < (\<Sum>i<n. z i * (\<Sum>j<n. g i j * z j))"
    and "(\<Sum>i<n. z i * (\<Sum>j<n. g i j * z j)) = 0"
  shows "\<forall>i<n. z i = 0"
proof -
  from PD have "(\<exists>i<n. z i \<noteq> 0) \<longrightarrow> 0 < (\<Sum>i<n. z i * (\<Sum>j<n. g i j * z j))" by (rule spec)
  with assms(2) show ?thesis by auto
qed

lemma schur_nonsingular:
  fixes g a M :: "nat \<Rightarrow> nat \<Rightarrow> real" and y :: "nat \<Rightarrow> real"
  assumes sym: "\<forall>i<n. \<forall>j<n. g i j = g j i"
    and GM: "\<forall>i<n. \<forall>j<m. (\<Sum>k<n. g i k * M k j) = a j i"
    and PD: "\<forall>z. (\<exists>i<n. z i \<noteq> 0) \<longrightarrow> 0 < (\<Sum>i<n. z i * (\<Sum>j<n. g i j * z j))"
    and FRR: "\<forall>y. (\<forall>j<n. (\<Sum>i<m. a i j * y i) = 0) \<longrightarrow> (\<forall>i<m. y i = 0)"
    and Sy0: "\<forall>i<m. (\<Sum>j<m. (\<Sum>l<n. a i l * M l j) * y j) = 0"
  shows "\<forall>i<m. y i = 0"
proof -
  define z where "z l = (\<Sum>j<m. M l j * y j)" for l
  have Gz: "(\<Sum>k<n. g l k * z k) = (\<Sum>j<m. a j l * y j)" if l: "l < n" for l
  proof -
    have "(\<Sum>k<n. g l k * z k) = (\<Sum>k<n. \<Sum>j<m. g l k * M k j * y j)"
      by (simp add: z_def sum_distrib_left mult_ac)
    also have "\<dots> = (\<Sum>j<m. \<Sum>k<n. g l k * M k j * y j)" by (rule sum.swap)
    also have "\<dots> = (\<Sum>j<m. (\<Sum>k<n. g l k * M k j) * y j)" by (simp add: sum_distrib_right)
    also have "\<dots> = (\<Sum>j<m. a j l * y j)" using GM l by (intro sum.cong refl) simp
    finally show ?thesis .
  qed
  have "(\<Sum>l<n. z l * (\<Sum>k<n. g l k * z k)) = (\<Sum>l<n. z l * (\<Sum>j<m. a j l * y j))"
    using Gz by (intro sum.cong refl) simp
  also have "\<dots> = (\<Sum>l<n. \<Sum>i<m. \<Sum>j<m. a j l * M l i * y j * y i)"
    unfolding z_def sum_product by (intro sum.cong refl) (simp add: mult_ac)
  also have "\<dots> = (\<Sum>i<m. \<Sum>l<n. \<Sum>j<m. a j l * M l i * y j * y i)" by (rule sum.swap)
  also have "\<dots> = (\<Sum>i<m. \<Sum>j<m. \<Sum>l<n. a j l * M l i * y j * y i)"
    by (intro sum.cong refl sum.swap)
  also have "\<dots> = (\<Sum>i<m. (\<Sum>j<m. (\<Sum>l<n. a j l * M l i) * y j) * y i)"
    by (simp add: sum_distrib_right)
  also have "\<dots> = (\<Sum>i<m. (\<Sum>j<m. (\<Sum>l<n. a i l * M l j) * y j) * y i)"
    using schur_sym[OF sym GM] by (intro sum.cong refl) simp
  also have "\<dots> = 0" using Sy0 by simp
  finally have "\<forall>l<n. z l = 0" using pd_zero[OF PD] by blast
  then have "\<forall>l<n. (\<Sum>j<m. a j l * y j) = 0" using Gz by simp
  with FRR show ?thesis by blast
qed

lemma pd_unique:
  fixes g :: "nat \<Rightarrow> nat \<Rightarrow> real" and x x' r :: "nat \<Rightarrow> real"
  assumes PD: "\<forall>z. (\<exists>i<n. z i \<noteq> 0) \<longrightarrow> 0 < (\<Sum>i<n. z i * (\<Sum>j<n. g i j * z j))"
    and x: "\<forall>i<n. (\<Sum>j<n. g i j * x j) = r i"
    and x': "\<forall>i<n. (\<Sum>j<n. g i j * x' j) = r i"
  shows "\<forall>i<n. x' i = x i"
proof -
  have "(\<Sum>j<n. g i j * (x' j - x j)) = 0" if "i < n" for i
    using x x' that by (simp add: right_diff_distrib sum_subtractf)
  then have "(\<Sum>i<n. (x' i - x i) * (\<Sum>j<n. g i j * (x' j - x j))) = 0" by simp
  from pd_zero[OF PD this] show ?thesis by simp
qed

lemma form_symmetric:
  fixes g :: "nat \<Rightarrow> nat \<Rightarrow> real" and u v :: "nat \<Rightarrow> real"
  assumes sym: "\<forall>i<n. \<forall>j<n. g i j = g j i"
  shows "(\<Sum>i<n. u i * (\<Sum>j<n. g i j * v j)) = (\<Sum>i<n. v i * (\<Sum>j<n. g i j * u j))"
proof -
  have "(\<Sum>i<n. u i * (\<Sum>j<n. g i j * v j)) = (\<Sum>i<n. \<Sum>j<n. g i j * u i * v j)"
    by (simp add: sum_distrib_left mult_ac)
  also have "\<dots> = (\<Sum>j<n. \<Sum>i<n. g i j * u i * v j)" by (rule sum.swap)
  also have "\<dots> = (\<Sum>j<n. \<Sum>i<n. g j i * u i * v j)"
    using sym by (intro sum.cong refl) simp
  also have "\<dots> = (\<Sum>j<n. v j * (\<Sum>i<n. g j i * u i))"
    by (simp add: sum_distrib_left mult_ac)
  finally show ?thesis .
qed

lemma form_add:
  fixes g :: "nat \<Rightarrow> nat \<Rightarrow> real" and x d :: "nat \<Rightarrow> real"
  shows "(\<Sum>i<n. (x i + d i) * (\<Sum>j<n. g i j * (x j + d j))) =
         (\<Sum>i<n. x i * (\<Sum>j<n. g i j * x j)) + (\<Sum>i<n. x i * (\<Sum>j<n. g i j * d j)) +
         (\<Sum>i<n. d i * (\<Sum>j<n. g i j * x j)) + (\<Sum>i<n. d i * (\<Sum>j<n. g i j * d j))"
  by (simp add: distrib_left distrib_right sum.distrib)

lemma pd_minimum:
  fixes g :: "nat \<Rightarrow> nat \<Rightarrow> real" and x z c :: "nat \<Rightarrow> real"
  assumes sym: "\<forall>i<n. \<forall>j<n. g i j = g j i"
    and PD: "\<forall>z. (\<exists>i<n. z i \<noteq> 0) \<longrightarrow> 0 < (\<Sum>i<n. z i * (\<Sum>j<n. g i j * z j))"
    and Gx: "\<forall>i<n. (\<Sum>j<n. g i j * x j) = - c i"
  shows "1/2 * (\<Sum>i<n. x i * (\<Sum>j<n. g i j * x j)) + (\<Sum>i<n. c i * x i)
       \<le> 1/2 * (\<Sum>i<n. z i * (\<Sum>j<n. g i j * z j)) + (\<Sum>i<n. c i * z i)"
proof -
  define d where "d i = z i - x i" for i
  have z: "z = (\<lambda>i. x i + d i)" by (simp add: d_def fun_eq_iff)
  have nonneg: "0 \<le> (\<Sum>i<n. d i * (\<Sum>j<n. g i j * d j))"
  proof (cases "\<exists>i<n. d i \<noteq> 0")
    case True
    with PD show ?thesis by (simp add: less_imp_le)
  next
    case False
    then show ?thesis by simp
  qed
  have dx: "(\<Sum>i<n. d i * (\<Sum>j<n. g i j * x j)) = - (\<Sum>i<n. c i * d i)"
    using Gx by (simp add: sum_negf mult.commute)
  have xd: "(\<Sum>i<n. x i * (\<Sum>j<n. g i j * d j)) = - (\<Sum>i<n. c i * d i)"
    using form_symmetric[OF sym, of x d] dx by simp
  have cz: "(\<Sum>i<n. c i * z i) = (\<Sum>i<n. c i * x i) + (\<Sum>i<n. c i * d i)"
    by (simp add: z distrib_left sum.distrib)
  have zz: "(\<Sum>i<n. z i * (\<Sum>j<n. g i j * z j)) =
        (\<Sum>i<n. x i * (\<Sum>j<n. g i j * x j)) - 2 * (\<Sum>i<n. c i * d i)
        + (\<Sum>i<n. d i * (\<Sum>j<n. g i j * d j))"
    unfolding z form_add xd dx by simp
  have "1 / 2 * a + cx \<le> 1 / 2 * (a - 2 * b + e) + (cx + b)" if "0 \<le> e" for a b e cx :: real
    using that by (simp add: algebra_simps)
  from this[OF nonneg] show ?thesis unfolding zz cz .
qed

lemma coeff_mat_mul: "coeff (mat_mul M N) i j = (\<Sum>k<cols M. coeff M i k * coeff N k j)"
  by (simp add: mat_mul_def)

lemma dims_mat_mul [simp]: "rows (mat_mul M N) = rows M" "cols (mat_mul M N) = cols N"
  by (simp_all add: mat_mul_def)

lemma dims_transpose_m [simp]: "rows (transpose_m M) = cols M" "cols (transpose_m M) = rows M"
  by (simp_all add: transpose_m_def)

lemma coeff_transpose_m [simp]: "coeff (transpose_m M) i j = coeff M j i"
  by (simp add: transpose_m_def)

lemma dims_mat_add [simp]: "rows (mat_add M N) = rows M" "cols (mat_add M N) = cols M"
  by (simp_all add: mat_add_def)

lemma coeff_mat_add [simp]: "coeff (mat_add M N) i j = coeff M i j + coeff N i j"
  by (simp add: mat_add_def)

lemma dims_mat_sub [simp]: "rows (mat_sub M N) = rows M" "cols (mat_sub M N) = cols M"
  by (simp_all add: mat_sub_def)

lemma coeff_mat_sub [simp]: "coeff (mat_sub M N) i j = coeff M i j - coeff N i j"
  by (simp add: mat_sub_def)

lemma solvesD:
  assumes "solves M X B"
  shows "rows X = cols M" "cols X = cols B"
    "i < rows M \<Longrightarrow> j < cols B \<Longrightarrow> (\<Sum>k<cols M. coeff M i k * coeff X k j) = coeff B i j"
  using assms by (simp_all add: solves_def coeff_mat_mul)

text \<open>The range-space computation on an assembled problem of the right shape.\<close>

lemma range_space_kkt_shape:
  fixes G c A b :: matrix
  assumes dims: "rows G = n" "cols G = n" "rows A = m" "cols A = n" "cols c = 1"
    and sym: "symmetric G" and pd: "positive_definite G" and frr: "full_row_rank A"
    and llt: "llt_exact E G"
    and qr: "qr_exact E (mat_mul A (llt_solve E G (transpose_m A)))"
  defines "y \<equiv> range_space_lambda E G c A b"
    and "x \<equiv> range_space_x E G c A b"
  shows "llt_info E G = Success"
    and "rows x = n" and "cols x = 1" and "rows y = m" and "cols y = 1"
    and "\<forall>i<m. coeff (mat_mul A x) i 0 = coeff b i 0"
    and "\<forall>i<n. coeff (mat_mul G x) i 0 + coeff c i 0 - coeff (mat_mul (transpose_m A) y) i 0 = 0"
proof -
  let ?M = "llt_solve E G (transpose_m A)"
  let ?S = "mat_mul A ?M"
  let ?r = "mat_add (mat_mul (transpose_m ?M) c) b"
  let ?B = "mat_sub (mat_mul (transpose_m A) y) c"
  from llt pd sym show ok: "llt_info E G = Success" by (simp add: llt_exact_def)
  with llt sym have solve: "rows B = n \<Longrightarrow> solves G (llt_solve E G B) B" for B
    by (simp add: llt_exact_def dims)
  have M: "solves G ?M (transpose_m A)" by (rule solve) (simp add: dims)
  have Mr: "rows ?M = n" and Mc: "cols ?M = m" using solvesD(1,2)[OF M] by (simp_all add: dims)
  have symf: "\<forall>i<n. \<forall>j<n. coeff G i j = coeff G j i"
    using sym dims by (simp add: symmetric_def)
  have GM: "\<forall>i<n. \<forall>j<m. (\<Sum>k<n. coeff G i k * coeff ?M k j) = coeff A j i"
    using solvesD(3)[OF M] by (simp add: dims)
  have PD: "\<forall>z. (\<exists>i<n. z i \<noteq> 0) \<longrightarrow> 0 < (\<Sum>i<n. z i * (\<Sum>j<n. coeff G i j * z j))"
    using pd by (simp add: positive_definite_def quadratic_form_def dims)
  have FRR: "\<forall>y. (\<forall>j<n. (\<Sum>i<m. coeff A i j * y i) = 0) \<longrightarrow> (\<forall>i<m. y i = 0)"
    using frr by (simp add: full_row_rank_def dims)
  have "nonsingular ?S"
    unfolding nonsingular_def
  proof (intro conjI allI impI)
    show "rows ?S = cols ?S" by (simp add: dims Mc)
  next
    fix v :: "nat \<Rightarrow> real" and j
    assume "\<forall>i<rows ?S. (\<Sum>j<cols ?S. coeff ?S i j * v j) = 0" and "j < cols ?S"
    then have "\<forall>i<m. (\<Sum>j<m. (\<Sum>l<n. coeff A i l * coeff ?M l j) * v j) = 0" and "j < m"
      by (simp_all add: dims Mc coeff_mat_mul)
    with schur_nonsingular[OF symf GM PD FRR] show "v j = 0" by blast
  qed
  moreover have "rows ?r = rows ?S" by (simp add: dims Mc)
  ultimately have Y: "solves ?S (qr_solve E ?S ?r) ?r"
    using qr by (simp add: qr_exact_def)
  have y: "y = qr_solve E ?S ?r" by (simp add: y_def range_space_lambda_def Let_def)
  from solvesD(1,2)[OF Y] show yr: "rows y = m" and yc: "cols y = 1"
    by (simp_all add: y dims Mc)
  have Sy: "\<forall>i<m. (\<Sum>j<m. (\<Sum>l<n. coeff A i l * coeff ?M l j) * coeff y j 0)
              = (\<Sum>k<n. coeff ?M k i * coeff c k 0) + coeff b i 0"
    using solvesD(3)[OF Y, of _ 0] by (simp add: y dims Mc Mr coeff_mat_mul)
  have x: "x = llt_solve E G ?B" by (simp add: x_def y_def range_space_x_def)
  have X: "solves G x ?B" unfolding x by (rule solve) (simp add: dims)
  from solvesD(1,2)[OF X] show "rows x = n" and "cols x = 1" by (simp_all add: dims yc)
  have Gx: "\<forall>i<n. (\<Sum>k<n. coeff G i k * coeff x k 0) = (\<Sum>j<m. coeff A j i * coeff y j 0) - coeff c i 0"
    using solvesD(3)[OF X, of _ 0] by (simp add: dims yc coeff_mat_mul)
  show "\<forall>i<m. coeff (mat_mul A x) i 0 = coeff b i 0"
    using range_space_feasible[OF symf GM Sy Gx] by (simp add: coeff_mat_mul dims)
  show "\<forall>i<n. coeff (mat_mul G x) i 0 + coeff c i 0 - coeff (mat_mul (transpose_m A) y) i 0 = 0"
    using Gx by (simp add: coeff_mat_mul dims)
qed

section \<open>Evaluating the examples\<close>

lemma supported_mk_program [simp]: "supported (mk_program n qs es)"
  by (simp add: supported_def mk_program_def)

lemma mk_program_sel [simp]:
  "num_vars (mk_program n qs es) = n"
  "FindDecisionVariableIndex (mk_program n qs es) v = v"
  "quadratic_costs (mk_program n qs es) = qs"
  "linear_equality_constraints (mk_program n qs es) = es"
  by (simp_all add: mk_program_def)

lemma overlap_G: "coeff (asm_G overlap_prog) 1 1 = 5"
  by (simp add: asm_G_spec overlap_prog_def mk_cost_def scatter_Q_def of_rows_def eval_nat_numeral)

lemma convex_G: "coeff (asm_G convex_prog) p q = (if p = q \<and> p < 2 then 2 else 0)"
  by (auto simp add: asm_G_spec convex_prog_def mk_cost_def scatter_Q_def of_rows_def eval_nat_numeral)

lemma convex_c: "coeff (asm_c convex_prog) p 0 = 0"
  by (auto simp add: asm_c_spec convex_prog_def mk_cost_def scatter_b_def of_rows_def eval_nat_numeral)

lemma convex_dims:
  "num_vars convex_prog = 2" "num_constraints convex_prog = 1"
  by (simp_all add: convex_prog_def num_constraints_def mk_equality_def of_rows_def)

lemma convex_A: "coeff (asm_A convex_prog) i j = (if i = 0 \<and> j < 2 then 1 else 0)"
  by (auto simp add: asm_A_def assemble_constraints_def convex_prog_def num_constraints_def
      add_equality_constraint_def mk_equality_def of_rows_def Let_def set_block_def col_def
      segment_def Zero_def eval_nat_numeral)

lemma convex_b: "coeff (asm_b convex_prog) i 0 = (if i = 0 then 1 else 0)"
  by (auto simp add: asm_b_def assemble_constraints_def convex_prog_def num_constraints_def
      add_equality_constraint_def mk_equality_def of_rows_def Let_def set_block_def col_def
      segment_def Zero_def eval_nat_numeral)

section \<open>The assembler\<close>

text \<open>
  Claim C5.  The assembler accumulates the quadratic cost terms additively: the entry
  \<open>(p, q)\<close> of the assembled \<open>G\<close> is the sum, over the cost terms, of the entries
  \<open>Q(i, j)\<close> whose variables have the global indices \<open>p\<close> and \<open>q\<close>, and the entry
  \<open>p\<close> of \<open>c\<close> is the sum of the entries \<open>b(i)\<close> whose variable has the global index
  \<open>p\<close>; overlapping terms add up.  For the term \<open>Q = [[2, 0], [0, 2]]\<close> over the
  variables \<open>0\<close> and \<open>1\<close> and the term \<open>Q = [[3]]\<close> over the variable \<open>1\<close>, the entry
  \<open>(1, 1)\<close> of \<open>G\<close> is \<open>5\<close>.
\<close>

theorem cost_terms_accumulate:
  "coeff (asm_G prog) p q = (\<Sum>t\<leftarrow>quadratic_costs prog. scatter_Q prog t p q) \<and>
   coeff (asm_c prog) p 0 = (\<Sum>t\<leftarrow>quadratic_costs prog. scatter_b prog t p) \<and>
   rows (asm_G prog) = num_vars prog \<and> cols (asm_G prog) = num_vars prog \<and>
   rows (asm_c prog) = num_vars prog \<and>
   coeff (asm_G overlap_prog) 1 1 = 5"
  using asm_G_spec[of prog p q] asm_c_spec[of prog p] overlap_G by simp

theorem cost_terms_accumulate_witness:
  "coeff (asm_G overlap_prog) 1 1 = 2 + 3 \<and> coeff (asm_G overlap_prog) 0 0 = 2 \<and>
   coeff (asm_G overlap_prog) 0 1 = 0"
  using cost_terms_accumulate[of overlap_prog 1 1] cost_terms_accumulate[of overlap_prog 0 0]
    cost_terms_accumulate[of overlap_prog 0 1]
  by (simp add: overlap_prog_def mk_cost_def scatter_Q_def of_rows_def eval_nat_numeral)

text \<open>
  Claim C6.  The assembler stacks the equality constraint terms row-wise in the order of
  presentation.  The \<open>k\<close>-th term occupies the rows from the cursor, which is the sum of
  the row counts of the terms before it, and the cursor advances by the row count of the
  term.  In row \<open>r\<close> of the block, the column of the term's \<open>i\<close>-th variable holds the
  local coefficient \<open>(r, i)\<close> (when the variable occurs several times in the term, the
  column written last stays), every column of no variable of the term is zero, and the
  entry of \<open>b\<close> is the term's right-hand side.  The assembled system has as many rows as
  the terms together.
\<close>

theorem constraints_stacked:
  assumes "k < length (linear_equality_constraints prog)"
    and "r < rows (ec_A (linear_equality_constraints prog ! k))"
  shows "let t = linear_equality_constraints prog ! k; row = row_offset prog k + r in
     rows (asm_A prog) = num_constraints prog \<and> cols (asm_A prog) = num_vars prog \<and>
     rows (asm_b prog) = num_constraints prog \<and>
     num_constraints prog = row_offset prog (length (linear_equality_constraints prog)) \<and>
     snd (snd (fold (add_equality_constraint prog) (take k (linear_equality_constraints prog))
        (Zero (num_constraints prog) (num_vars prog), Zero (num_constraints prog) 1, 0)))
       = row_offset prog k \<and>
     row_offset prog (Suc k) = row_offset prog k + rows (ec_A t) \<and>
     row < num_constraints prog \<and>
     (\<forall>i<length (ec_variables t).
        (\<forall>i'<length (ec_variables t). i < i' \<longrightarrow> global_index prog t i' \<noteq> global_index prog t i)
        \<longrightarrow> coeff (asm_A prog) row (global_index prog t i) = coeff (ec_A t) r i) \<and>
     (\<forall>p. (\<forall>i<length (ec_variables t). global_index prog t i \<noteq> p) \<longrightarrow> coeff (asm_A prog) row p = 0) \<and>
     coeff (asm_b prog) row 0 = coeff (ec_lower_bound t) r 0"
proof -
  let ?ts = "linear_equality_constraints prog"
  have off: "row_offset prog k = 0 + sum_list (map (\<lambda>t. rows (ec_A t)) (take k ?ts))"
    by (simp add: row_offset_def)
  have lt: "row_offset prog k + r < num_constraints prog"
    using row_offset_Suc[OF assms(1)] row_offset_le[of "Suc k" prog] assms by simp
  have z: "coeff (Zero a b) i j = 0" for a b i j by (simp add: Zero_def)
  from fold_constraints_term[OF asm_constraints_fold assms, folded off] asm_A_dims[of prog]
    cursor_after[of prog k] row_offset_Suc[OF assms(1)] lt
  show ?thesis
    by (simp add: Let_def z row_offset_def num_constraints_sum)
qed

lemma stacked_dims:
  "num_vars stacked_prog = 3" "length (linear_equality_constraints stacked_prog) = 2"
  "rows (ec_A (linear_equality_constraints stacked_prog ! 0)) = 2"
  "rows (ec_A (linear_equality_constraints stacked_prog ! 1)) = 3"
  "rows (ec_A (linear_equality_constraints stacked_prog ! Suc 0)) = 3"
  "row_offset stacked_prog (Suc 0) = 2"
  "row_offset stacked_prog 0 = 0" "row_offset stacked_prog 1 = 2"
  by (simp_all add: stacked_prog_def mk_equality_def of_rows_def row_offset_def)

lemma stacked_terms:
  "linear_equality_constraints stacked_prog ! 0 = mk_equality [[1, 2], [3, 4]] [5, 6] [0, 2]"
  "linear_equality_constraints stacked_prog ! 1 = mk_equality [[7], [8], [9]] [10, 11, 12] [1]"
  "linear_equality_constraints stacked_prog ! Suc 0 = mk_equality [[7], [8], [9]] [10, 11, 12] [1]"
  "num_constraints stacked_prog = 5"
  by (simp_all add: stacked_prog_def num_constraints_def mk_equality_def of_rows_def)

lemma mk_equality_sel:
  "ec_variables (mk_equality A b vs) = vs"
  "coeff (ec_A (mk_equality A b vs)) i j = (if i < length A \<and> j < length (A ! i) then A ! i ! j else 0)"
  "coeff (ec_lower_bound (mk_equality A b vs)) i 0 = (if i < length b then b ! i else 0)"
  "rows (ec_A (mk_equality A b vs)) = length A"
  by (simp_all add: mk_equality_def of_rows_def)

lemma stacked_index:
  "global_index stacked_prog t i = ec_variables t ! i"
  by (simp add: global_index_def stacked_prog_def)

theorem constraints_stacked_witness:
  "rows (asm_A stacked_prog) = 5 \<and> rows (asm_b stacked_prog) = 5 \<and>
   coeff (asm_A stacked_prog) 1 0 = 3 \<and> coeff (asm_A stacked_prog) 1 1 = 0 \<and>
   coeff (asm_A stacked_prog) 1 2 = 4 \<and> coeff (asm_b stacked_prog) 1 0 = 6 \<and>
   coeff (asm_A stacked_prog) 4 0 = 0 \<and> coeff (asm_A stacked_prog) 4 1 = 9 \<and>
   coeff (asm_A stacked_prog) 4 2 = 0 \<and> coeff (asm_b stacked_prog) 4 0 = 12"
proof -
  let ?A = "asm_A stacked_prog" and ?b = "asm_b stacked_prog"
  have k0: "0 < length (linear_equality_constraints stacked_prog)"
    and k1: "1 < length (linear_equality_constraints stacked_prog)"
    and r0: "1 < rows (ec_A (linear_equality_constraints stacked_prog ! 0))"
    and r1: "2 < rows (ec_A (linear_equality_constraints stacked_prog ! 1))"
    by (simp_all add: stacked_dims)
  from constraints_stacked[OF k0 r0] have
    d: "rows ?A = 5" "rows ?b = 5"
    and a0: "\<forall>i<length [0, 2::nat]. (\<forall>i'<length [0, 2::nat]. i < i' \<longrightarrow> [0, 2::nat] ! i' \<noteq> [0, 2] ! i) \<longrightarrow>
               coeff ?A 1 ([0, 2] ! i) = [[1, 2], [3, 4]] ! 1 ! i"
    and z0: "\<forall>p. (\<forall>i<length [0, 2::nat]. [0, 2] ! i \<noteq> p) \<longrightarrow> coeff ?A 1 p = 0"
    and b0: "coeff ?b 1 0 = 6"
    by (simp_all add: Let_def stacked_terms stacked_dims stacked_index mk_equality_sel)
  from constraints_stacked[OF k1 r1] have
    a1: "\<forall>i<length [1::nat]. (\<forall>i'<length [1::nat]. i < i' \<longrightarrow> [1::nat] ! i' \<noteq> [1] ! i) \<longrightarrow>
               coeff ?A 4 ([1] ! i) = [[7], [8], [9]] ! 2 ! i"
    and z1: "\<forall>p. (\<forall>i<length [1::nat]. [1] ! i \<noteq> p) \<longrightarrow> coeff ?A 4 p = 0"
    and b1: "coeff ?b 4 0 = 12"
    by (simp_all add: Let_def stacked_terms stacked_dims stacked_index mk_equality_sel)
  have "coeff ?A 1 0 = 3" using a0[rule_format, of 0] by (simp add: All_less_Suc eval_nat_numeral)
  moreover have "coeff ?A 1 2 = 4" using a0[rule_format, of 1] by (simp add: All_less_Suc eval_nat_numeral)
  moreover have "coeff ?A 1 1 = 0" using z0[THEN spec, of 1] by (simp add: All_less_Suc eval_nat_numeral)
  moreover have "coeff ?A 4 1 = 9" using a1[rule_format, of 0] by (simp add: eval_nat_numeral)
  moreover have "coeff ?A 4 0 = 0" using z1[THEN spec, of 0] by simp
  moreover have "coeff ?A 4 2 = 0" using z1[THEN spec, of 2] by simp
  ultimately show ?thesis using d b0 b1 by simp
qed

section \<open>The outcome and the choice of the strategy\<close>

lemma range_space_x_strategy_A:
  "range_space_x E G c A b = strategy_A (llt_solve E G) (qr_solve E) c A b"
  by (simp add: range_space_x_def range_space_lambda_def strategy_A_def Let_def)

lemma asm_kkt_matrix:
  "kkt_matrix uA (num_vars prog + num_constraints prog) (asm_G prog) (asm_A prog) =
   augmented_matrix (num_vars prog) (num_constraints prog) (asm_G prog) (asm_A prog)"
  by (rule kkt_matrix_eq) (simp_all add: asm_G_spec asm_A_dims)

lemma asm_kkt_rhs:
  "kkt_rhs ub (num_vars prog + num_constraints prog) (asm_G prog) (asm_c prog) (asm_A prog) (asm_b prog) =
   augmented_rhs (num_vars prog) (num_constraints prog) (asm_c prog) (asm_b prog)"
  by (rule kkt_rhs_eq) (simp_all add: asm_G_spec asm_A_dims)

lemma chosen_x_strategies:
  "chosen_x E uA ub prog =
     (if llt_info E (asm_G prog) = Success
      then strategy_A (llt_solve E (asm_G prog)) (qr_solve E) (asm_c prog) (asm_A prog) (asm_b prog)
      else strategy_B (svd_solve E) (num_vars prog) (num_constraints prog)
             (asm_G prog) (asm_c prog) (asm_A prog) (asm_b prog))"
  by (simp add: chosen_x_def range_space_x_strategy_A strategy_B_def asm_kkt_matrix asm_kkt_rhs)

text \<open>
  Claim C3.  On every program with no cost or constraint of an unsupported kind, \<open>Solve\<close>
  returns the outcome \<^verbatim>\<open>kSolutionFound\<close>; and whenever \<open>Solve\<close> returns an outcome at
  all, it is \<^verbatim>\<open>kSolutionFound\<close>: no path returns a failure, infeasible or unbounded
  outcome.
\<close>

theorem solve_reports_success:
  "(supported prog \<longrightarrow> (\<exists>prog'. Solve armed E uA ub prog = Inr (kSolutionFound, prog'))) \<and>
   (\<forall>r prog'. Solve armed E uA ub prog = Inr (r, prog') \<longrightarrow> r = kSolutionFound)"
proof (intro conjI impI allI)
  assume "supported prog"
  then show "\<exists>prog'. Solve armed E uA ub prog = Inr (kSolutionFound, prog')"
    by (simp add: Solve_eq assertions_supported solved_with_def)
next
  fix r prog'
  assume s: "Solve armed E uA ub prog = Inr (r, prog')"
  show "r = kSolutionFound"
  proof (cases "assertions armed prog = Inr ()")
    case True
    with s show ?thesis by (simp add: Solve_eq solved_with_def)
  next
    case False
    with s show ?thesis by (simp add: Solve_abort)
  qed
qed

theorem solve_reports_success_witness:
  "\<exists>prog'. Solve True example_eigen garbage0 garbage1 degenerate_prog = Inr (kSolutionFound, prog')"
  using solve_reports_success[of degenerate_prog True example_eigen garbage0 garbage1]
  by (simp add: degenerate_prog_def)

text \<open>
  Claim C4.  The strategy is chosen by the test of the factorization of \<open>G\<close> alone: when
  it succeeds, \<open>Solve\<close> returns the result of Strategy A, computed with the solve of the
  factorization and the orthogonal least-squares solve only; when it fails, \<open>Solve\<close>
  returns the result of Strategy B, computed with the singular-value solve only.  Each
  run takes one of the two.
\<close>

theorem strategy_selection:
  assumes "armed \<longrightarrow> supported prog"
  shows "(llt_info E (asm_G prog) = Success \<longrightarrow>
            Solve armed E uA ub prog =
              solved_with prog (strategy_A (llt_solve E (asm_G prog)) (qr_solve E)
                                  (asm_c prog) (asm_A prog) (asm_b prog))) \<and>
         (llt_info E (asm_G prog) \<noteq> Success \<longrightarrow>
            Solve armed E uA ub prog =
              solved_with prog (strategy_B (svd_solve E) (num_vars prog) (num_constraints prog)
                                  (asm_G prog) (asm_c prog) (asm_A prog) (asm_b prog)))"
  using assms by (simp add: Solve_eq assertions_cases chosen_x_strategies)

lemma example_llt_info:
  "llt_info example_eigen G =
     (if list_all (\<lambda>i. 0 < coeff G i i) [0..<rows G] then Success else NumericalIssue)"
  by (simp add: example_eigen_def)

lemma convex_llt_info: "llt_info example_eigen (asm_G convex_prog) = Success"
  by (simp add: example_llt_info asm_G_spec[of convex_prog 0 0] convex_dims convex_G
      eval_nat_numeral)

lemma degenerate_G: "coeff (asm_G degenerate_prog) p q = 0"
  by (simp add: asm_G_spec degenerate_prog_def)

lemma degenerate_c: "coeff (asm_c degenerate_prog) p 0 = 0"
  by (simp add: asm_c_spec degenerate_prog_def)

lemma degenerate_dims:
  "num_vars degenerate_prog = 2" "num_constraints degenerate_prog = 2"
  by (simp_all add: degenerate_prog_def num_constraints_def mk_equality_def of_rows_def)

lemma degenerate_llt_info: "llt_info example_eigen (asm_G degenerate_prog) = NumericalIssue"
  by (simp add: example_llt_info asm_G_spec[of degenerate_prog 0 0] degenerate_dims degenerate_G
      eval_nat_numeral)

theorem strategy_selection_witness:
  "Solve True example_eigen garbage0 garbage1 convex_prog =
     solved_with convex_prog
       (strategy_A (llt_solve example_eigen (asm_G convex_prog)) (qr_solve example_eigen)
          (asm_c convex_prog) (asm_A convex_prog) (asm_b convex_prog)) \<and>
   Solve True example_eigen garbage0 garbage1 degenerate_prog =
     solved_with degenerate_prog
       (strategy_B (svd_solve example_eigen) 2 2
          (asm_G degenerate_prog) (asm_c degenerate_prog) (asm_A degenerate_prog)
          (asm_b degenerate_prog))"
proof -
  have c: "True \<longrightarrow> supported convex_prog" by (simp add: convex_prog_def)
  have d: "True \<longrightarrow> supported degenerate_prog" by (simp add: degenerate_prog_def)
  show ?thesis
    using strategy_selection[OF c, of example_eigen garbage0 garbage1]
      strategy_selection[OF d, of example_eigen garbage0 garbage1]
    by (simp add: convex_llt_info degenerate_llt_info degenerate_dims)
qed

section \<open>The full system and determinism\<close>

text \<open>
  Claim C8.  The matrix that Strategy B writes block by block is the augmented matrix with
  the blocks \<open>G\<close>, \<open>-A'\<close>, \<open>A\<close> and \<open>0\<close>, whatever the uninitialised memory held; its
  right-hand side has \<open>-c\<close> in the first \<open>n\<close> entries and \<open>b\<close> in the last \<open>m\<close>; and
  when the factorization test fails, the \<open>x\<close> that \<open>Solve\<close> returns is the first \<open>n\<close>
  entries of the singular-value least-squares solution of that system.
\<close>

theorem full_system_blocks:
  "kkt_matrix uA (num_vars prog + num_constraints prog) (asm_G prog) (asm_A prog) =
     augmented_matrix (num_vars prog) (num_constraints prog) (asm_G prog) (asm_A prog) \<and>
   kkt_rhs ub (num_vars prog + num_constraints prog) (asm_G prog) (asm_c prog) (asm_A prog)
       (asm_b prog) =
     augmented_rhs (num_vars prog) (num_constraints prog) (asm_c prog) (asm_b prog) \<and>
   ((armed \<longrightarrow> supported prog) \<and> llt_info E (asm_G prog) \<noteq> Success \<longrightarrow>
     (\<exists>prog'. Solve armed E uA ub prog = Inr (kSolutionFound, prog') \<and>
        decision_variable_values prog' =
          segment (svd_solve E
                     (augmented_matrix (num_vars prog) (num_constraints prog) (asm_G prog) (asm_A prog))
                     (augmented_rhs (num_vars prog) (num_constraints prog) (asm_c prog) (asm_b prog)))
                  0 (num_vars prog) \<and>
        rows (decision_variable_values prog') = num_vars prog \<and>
        (\<forall>i<num_vars prog.
           coeff (decision_variable_values prog') i 0 =
           coeff (svd_solve E
                    (augmented_matrix (num_vars prog) (num_constraints prog) (asm_G prog) (asm_A prog))
                    (augmented_rhs (num_vars prog) (num_constraints prog) (asm_c prog) (asm_b prog)))
                 i 0)))"
  by (simp add: asm_kkt_matrix asm_kkt_rhs Solve_eq assertions_cases chosen_x_strategies
      solved_with_def strategy_B_def segment_def)

theorem full_system_blocks_witness:
  "coeff (kkt_matrix garbage1 4 (asm_G degenerate_prog) (asm_A degenerate_prog)) 0 2 = - 1 \<and>
   coeff (kkt_matrix garbage1 4 (asm_G degenerate_prog) (asm_A degenerate_prog)) 2 0 = 1 \<and>
   coeff (kkt_matrix garbage1 4 (asm_G degenerate_prog) (asm_A degenerate_prog)) 3 3 = 0 \<and>
   coeff (kkt_rhs garbage1 4 (asm_G degenerate_prog) (asm_c degenerate_prog)
            (asm_A degenerate_prog) (asm_b degenerate_prog)) 3 0 = 4 \<and>
   (\<exists>prog'. Solve True example_eigen garbage1 garbage1 degenerate_prog = Inr (kSolutionFound, prog') \<and>
      rows (decision_variable_values prog') = 2 \<and>
      coeff (decision_variable_values prog') 1 0 =
        coeff (svd_solve example_eigen
                 (augmented_matrix 2 2 (asm_G degenerate_prog) (asm_A degenerate_prog))
                 (augmented_rhs 2 2 (asm_c degenerate_prog) (asm_b degenerate_prog))) 1 0)"
proof -
  have A: "coeff (asm_A degenerate_prog) i j = (if i = j \<and> i < 2 then 1 else 0)" for i j
    by (auto simp add: less_Suc_eq asm_A_def assemble_constraints_def degenerate_prog_def num_constraints_def
      add_equality_constraint_def mk_equality_def of_rows_def Let_def set_block_def col_def
      segment_def Zero_def eval_nat_numeral)
  have b: "coeff (asm_b degenerate_prog) (Suc 0) 0 = 4"
    by (simp add: asm_b_def assemble_constraints_def degenerate_prog_def num_constraints_def
      add_equality_constraint_def mk_equality_def of_rows_def Let_def set_block_def col_def
      segment_def Zero_def eval_nat_numeral)
  have s: "True \<longrightarrow> supported degenerate_prog" by (simp add: degenerate_prog_def)
  let ?G = "asm_G degenerate_prog" and ?A = "asm_A degenerate_prog"
  let ?c = "asm_c degenerate_prog" and ?b = "asm_b degenerate_prog"
  from full_system_blocks[of garbage1 degenerate_prog garbage1 True example_eigen]
  have M: "kkt_matrix garbage1 4 ?G ?A = augmented_matrix 2 2 ?G ?A"
    and R: "kkt_rhs garbage1 4 ?G ?c ?A ?b = augmented_rhs 2 2 ?c ?b"
    and S: "\<exists>prog'. Solve True example_eigen garbage1 garbage1 degenerate_prog = Inr (kSolutionFound, prog') \<and>
        rows (decision_variable_values prog') = 2 \<and>
        (\<forall>i<2. coeff (decision_variable_values prog') i 0 =
           coeff (svd_solve example_eigen (augmented_matrix 2 2 ?G ?A) (augmented_rhs 2 2 ?c ?b)) i 0)"
    by (auto simp add: degenerate_dims degenerate_llt_info s)
  from S obtain prog' where
    "Solve True example_eigen garbage1 garbage1 degenerate_prog = Inr (kSolutionFound, prog')"
    "rows (decision_variable_values prog') = 2"
    "coeff (decision_variable_values prog') 1 0 =
       coeff (svd_solve example_eigen (augmented_matrix 2 2 ?G ?A) (augmented_rhs 2 2 ?c ?b)) 1 0"
    by auto
  then show ?thesis
    by (simp add: M R augmented_matrix_def augmented_rhs_def A b)
qed

lemma chosen_x_garbage: "chosen_x E uA ub prog = chosen_x E uA' ub' prog"
  by (simp add: chosen_x_strategies)

lemma chosen_x_assembled:
  assumes "asm_G p1 = asm_G p2" "asm_c p1 = asm_c p2" "asm_A p1 = asm_A p2" "asm_b p1 = asm_b p2"
  shows "chosen_x E uA ub p1 = chosen_x E uA' ub' p2"
proof -
  have "num_vars p1 = num_vars p2" using asm_G_spec[of p1] asm_G_spec[of p2] assms(1) by simp
  moreover have "num_constraints p1 = num_constraints p2"
    using asm_A_dims[of p1] asm_A_dims[of p2] assms(3) by simp
  ultimately show ?thesis using assms by (simp add: chosen_x_strategies)
qed

text \<open>
  Claim C9.  \<open>Solve\<close> is deterministic.  Two runs on the same program give the same
  result, whatever the uninitialised memory of each run held; and two runs on programs
  with the same assembled problem \<open>(G, c, A, b)\<close> return the same \<open>x\<close>, the same reported
  cost and the same outcome.  (The decompositions are functions of their arguments.)
\<close>

theorem solve_deterministic:
  "Solve armed E uA ub prog = Solve armed E uA' ub' prog \<and>
   (asm_G p1 = asm_G p2 \<and> asm_c p1 = asm_c p2 \<and> asm_A p1 = asm_A p2 \<and> asm_b p1 = asm_b p2 \<and>
    supported p1 \<and> supported p2 \<longrightarrow>
    (\<exists>q1 q2. Solve armed E uA ub p1 = Inr (kSolutionFound, q1) \<and>
             Solve armed E uA' ub' p2 = Inr (kSolutionFound, q2) \<and>
             decision_variable_values q1 = decision_variable_values q2 \<and>
             optimal_cost q1 = optimal_cost q2 \<and> solver_result q1 = solver_result q2))"
proof (intro conjI impI)
  show "Solve armed E uA ub prog = Solve armed E uA' ub' prog"
  proof (cases "assertions armed prog = Inr ()")
    case True
    then show ?thesis by (simp add: Solve_eq chosen_x_garbage[of E uA ub prog uA' ub'])
  next
    case False
    then show ?thesis by (simp add: Solve_abort)
  qed
next
  assume a: "asm_G p1 = asm_G p2 \<and> asm_c p1 = asm_c p2 \<and> asm_A p1 = asm_A p2 \<and>
    asm_b p1 = asm_b p2 \<and> supported p1 \<and> supported p2"
  then have x: "chosen_x E uA ub p1 = chosen_x E uA' ub' p2" by (simp add: chosen_x_assembled)
  from a show "\<exists>q1 q2. Solve armed E uA ub p1 = Inr (kSolutionFound, q1) \<and>
             Solve armed E uA' ub' p2 = Inr (kSolutionFound, q2) \<and>
             decision_variable_values q1 = decision_variable_values q2 \<and>
             optimal_cost q1 = optimal_cost q2 \<and> solver_result q1 = solver_result q2"
    by (simp add: Solve_eq assertions_supported solved_with_def x)
qed

lemma split_G_coeff: "coeff (asm_G convex_prog_split) p q = (if p = q \<and> p < 2 then 2 else 0)"
  by (auto simp add: asm_G_spec convex_prog_split_def mk_cost_def scatter_Q_def of_rows_def
      eval_nat_numeral)

lemma split_G: "asm_G convex_prog_split = asm_G convex_prog"
proof (rule matrix.equality)
  show "coeff (asm_G convex_prog_split) = coeff (asm_G convex_prog)"
    by (simp add: fun_eq_iff split_G_coeff convex_G)
qed (simp_all add: asm_G_spec convex_prog_def convex_prog_split_def)

lemma split_c: "asm_c convex_prog_split = asm_c convex_prog"
  by (simp add: asm_c_def assemble_cost_def convex_prog_def convex_prog_split_def mk_cost_def
      add_quadratic_cost_def of_rows_def add_coeff_def Zero_def Let_def fun_eq_iff eval_nat_numeral)

lemma split_Ab: "assemble_constraints convex_prog_split = assemble_constraints convex_prog"
  by (simp add: assemble_constraints_def convex_prog_def convex_prog_split_def num_constraints_def
      add_equality_constraint_def global_index_def)

lemma supported_examples:
  "supported convex_prog" "supported convex_prog_split" "supported degenerate_prog"
  "supported linear_term_prog"
  by (simp_all add: convex_prog_def convex_prog_split_def degenerate_prog_def linear_term_prog_def)

theorem solve_deterministic_witness:
  "Solve True example_eigen garbage0 garbage0 degenerate_prog =
     Solve True example_eigen garbage1 garbage1 degenerate_prog \<and>
   (\<exists>q1 q2. Solve True example_eigen garbage0 garbage0 convex_prog_split = Inr (kSolutionFound, q1) \<and>
            Solve True example_eigen garbage1 garbage1 convex_prog = Inr (kSolutionFound, q2) \<and>
            decision_variable_values q1 = decision_variable_values q2 \<and>
            optimal_cost q1 = optimal_cost q2 \<and> solver_result q1 = solver_result q2)"
  using solve_deterministic[of True example_eigen garbage0 garbage0 degenerate_prog
      garbage1 garbage1 convex_prog_split convex_prog]
  by (simp add: split_G split_c split_Ab asm_A_def asm_b_def supported_examples)

section \<open>The range-space branch\<close>

lemma asm_G_dims: "rows (asm_G prog) = num_vars prog" "cols (asm_G prog) = num_vars prog"
  by (simp_all add: asm_G_spec)

lemma asm_c_dims: "rows (asm_c prog) = num_vars prog" "cols (asm_c prog) = 1"
  by (simp_all add: asm_c_spec)

lemma example_eigen_sel [simp]:
  "llt_solve example_eigen = diagonal_solve"
  "qr_solve example_eigen = diagonal_solve"
  "svd_solve example_eigen M r = mat_mul (transpose_m M) r"
  by (simp_all add: example_eigen_def)

lemma dims_diagonal_solve [simp]:
  "rows (diagonal_solve M B) = cols M" "cols (diagonal_solve M B) = cols B"
  "coeff (diagonal_solve M B) i j = coeff B i j / coeff M i i"
  by (simp_all add: diagonal_solve_def)

lemma two_squares_pos:
  fixes a b :: real
  assumes "a \<noteq> 0 \<or> b \<noteq> 0"
  shows "0 < a * (2 * a) + b * (2 * b)"
proof -
  have "a * (2 * a) + b * (2 * b) = 2 * (a\<^sup>2 + b\<^sup>2)"
    by (simp add: power2_eq_square algebra_simps)
  moreover have "0 < a\<^sup>2 + b\<^sup>2" using assms by (simp add: sum_power2_gt_zero_iff)
  ultimately show ?thesis by simp
qed

lemma convex_sym: "symmetric (asm_G convex_prog)"
  by (simp add: symmetric_def asm_G_dims convex_G convex_dims)

lemma convex_pd: "positive_definite (asm_G convex_prog)"
  unfolding positive_definite_def quadratic_form_def
  by (auto simp add: asm_G_dims convex_dims convex_G eval_nat_numeral Ex_less_Suc
      intro!: two_squares_pos[simplified eval_nat_numeral] two_squares_pos)

lemma convex_frr: "full_row_rank (asm_A convex_prog)"
  unfolding full_row_rank_def
  by (auto simp add: asm_A_dims convex_dims convex_A eval_nat_numeral)

lemma convex_llt: "llt_exact example_eigen (asm_G convex_prog)"
  unfolding llt_exact_def solves_def
  by (simp add: convex_llt_info convex_pd asm_G_dims convex_dims coeff_mat_mul convex_G
      eval_nat_numeral All_less_Suc)

lemma convex_qr:
  "qr_exact example_eigen (mat_mul (asm_A convex_prog)
     (llt_solve example_eigen (asm_G convex_prog) (transpose_m (asm_A convex_prog))))"
  unfolding qr_exact_def solves_def
  by (simp add: asm_G_dims asm_A_dims convex_dims coeff_mat_mul convex_G convex_A
      eval_nat_numeral All_less_Suc)


text \<open>
  Claim C2.  Let the assembled \<open>G\<close> be symmetric and positive definite and the assembled
  \<open>A\<close> have full row rank, and let the decompositions be exact on this problem.  Then
  \<open>Solve\<close> takes the range-space branch, and the \<open>x\<close> it returns and the multipliers
  \<open>y\<close> it computes satisfy the optimality conditions exactly: \<open>A x = b\<close> and
  \<open>G x + c - A'y = 0\<close>.
\<close>

theorem range_space_satisfies_kkt:
  assumes "armed \<longrightarrow> supported prog"
    and "symmetric (asm_G prog)" and "positive_definite (asm_G prog)"
    and "full_row_rank (asm_A prog)"
    and "llt_exact E (asm_G prog)"
    and "qr_exact E (mat_mul (asm_A prog) (llt_solve E (asm_G prog) (transpose_m (asm_A prog))))"
  shows "llt_info E (asm_G prog) = Success \<and>
    (\<exists>prog'. Solve armed E uA ub prog = Inr (kSolutionFound, prog') \<and>
       decision_variable_values prog' =
         llt_solve E (asm_G prog)
           (mat_sub (mat_mul (transpose_m (asm_A prog))
                       (range_space_lambda E (asm_G prog) (asm_c prog) (asm_A prog) (asm_b prog)))
                    (asm_c prog)) \<and>
       rows (decision_variable_values prog') = num_vars prog \<and>
       rows (range_space_lambda E (asm_G prog) (asm_c prog) (asm_A prog) (asm_b prog))
         = num_constraints prog \<and>
       (\<forall>i<num_constraints prog.
          coeff (mat_mul (asm_A prog) (decision_variable_values prog')) i 0 = coeff (asm_b prog) i 0) \<and>
       (\<forall>i<num_vars prog.
          coeff (mat_mul (asm_G prog) (decision_variable_values prog')) i 0 + coeff (asm_c prog) i 0
          - coeff (mat_mul (transpose_m (asm_A prog))
                     (range_space_lambda E (asm_G prog) (asm_c prog) (asm_A prog) (asm_b prog))) i 0
          = 0))"
proof -
  note ok = range_space_kkt_shape(1)[OF asm_G_dims[of prog] asm_A_dims[THEN conjunct1]
      asm_A_dims[THEN conjunct2, THEN conjunct1] asm_c_dims(2)[of prog] assms(2-6)]
  note shape = range_space_kkt_shape(2-7)[OF asm_G_dims[of prog] asm_A_dims[THEN conjunct1]
      asm_A_dims[THEN conjunct2, THEN conjunct1] asm_c_dims(2)[of prog] assms(2-6), where b = "asm_b prog"]
  from assms(1) have "Solve armed E uA ub prog = solved_with prog (chosen_x E uA ub prog)"
    by (simp add: Solve_eq assertions_cases)
  moreover have "chosen_x E uA ub prog =
      range_space_x E (asm_G prog) (asm_c prog) (asm_A prog) (asm_b prog)"
    using ok by (simp add: chosen_x_def)
  ultimately show ?thesis
    using ok shape by (simp add: solved_with_def range_space_x_def)
qed

theorem range_space_satisfies_kkt_witness:
  "\<exists>prog'. Solve True example_eigen garbage0 garbage1 convex_prog = Inr (kSolutionFound, prog') \<and>
     coeff (mat_mul (asm_A convex_prog) (decision_variable_values prog')) 0 0 = 1 \<and>
     coeff (decision_variable_values prog') 0 0 = 1 / 2 \<and>
     coeff (decision_variable_values prog') 1 0 = 1 / 2"
proof -
  have s: "True \<longrightarrow> supported convex_prog" by (simp add: supported_examples)
  from range_space_satisfies_kkt[OF s convex_sym convex_pd convex_frr convex_llt convex_qr,
      of garbage0 garbage1]
  obtain prog' where
    S: "Solve True example_eigen garbage0 garbage1 convex_prog = Inr (kSolutionFound, prog')"
    and x: "decision_variable_values prog' =
         llt_solve example_eigen (asm_G convex_prog)
           (mat_sub (mat_mul (transpose_m (asm_A convex_prog))
                       (range_space_lambda example_eigen (asm_G convex_prog) (asm_c convex_prog)
                          (asm_A convex_prog) (asm_b convex_prog)))
                    (asm_c convex_prog))"
    and A: "\<forall>i<num_constraints convex_prog.
          coeff (mat_mul (asm_A convex_prog) (decision_variable_values prog')) i 0
            = coeff (asm_b convex_prog) i 0"
    by blast
  from A have "coeff (mat_mul (asm_A convex_prog) (decision_variable_values prog')) 0 0 = 1"
    by (simp add: convex_dims convex_b)
  moreover have "coeff (decision_variable_values prog') 0 0 = 1 / 2"
    "coeff (decision_variable_values prog') 1 0 = 1 / 2"
    unfolding x
    by (simp_all add: range_space_lambda_def Let_def coeff_mat_mul asm_A_dims asm_G_dims
        convex_dims convex_A convex_G convex_b convex_c eval_nat_numeral)
  ultimately show ?thesis using S by blast
qed

lemma no_constraints:
  assumes "linear_equality_constraints prog = []"
  shows "num_constraints prog = 0" "rows (asm_A prog) = 0" "rows (asm_b prog) = 0"
    "full_row_rank (asm_A prog)"
proof -
  show n: "num_constraints prog = 0" using assms by (simp add: num_constraints_def)
  then show "rows (asm_A prog) = 0" "rows (asm_b prog) = 0" by (simp_all add: asm_A_dims)
  then show "full_row_rank (asm_A prog)" by (simp add: full_row_rank_def)
qed

text \<open>
  Claim C10.  When the program has no linear equality constraint and the assembled \<open>G\<close>
  is symmetric and positive definite (the decompositions being exact on this problem),
  \<open>Solve\<close> takes the range-space branch with \<open>A\<close>, \<open>b\<close> and the multipliers empty, and
  the \<open>x\<close> it returns is the unique solution of \<open>G x = - c\<close>; no vector gives the
  objective a smaller value.
\<close>

theorem unconstrained_minimizer:
  assumes "armed \<longrightarrow> supported prog"
    and "linear_equality_constraints prog = []"
    and "symmetric (asm_G prog)" and "positive_definite (asm_G prog)"
    and "llt_exact E (asm_G prog)"
    and "qr_exact E (mat_mul (asm_A prog) (llt_solve E (asm_G prog) (transpose_m (asm_A prog))))"
  shows "llt_info E (asm_G prog) = Success \<and>
    rows (asm_A prog) = 0 \<and> rows (asm_b prog) = 0 \<and>
    rows (range_space_lambda E (asm_G prog) (asm_c prog) (asm_A prog) (asm_b prog)) = 0 \<and>
    (\<exists>prog'. Solve armed E uA ub prog = Inr (kSolutionFound, prog') \<and>
       decision_variable_values prog' =
         range_space_x E (asm_G prog) (asm_c prog) (asm_A prog) (asm_b prog) \<and>
       rows (decision_variable_values prog') = num_vars prog \<and>
       (\<forall>i<num_vars prog.
          coeff (mat_mul (asm_G prog) (decision_variable_values prog')) i 0 = - coeff (asm_c prog) i 0) \<and>
       (\<forall>z. (\<forall>i<num_vars prog. (\<Sum>j<num_vars prog. coeff (asm_G prog) i j * z j) = - coeff (asm_c prog) i 0)
            \<longrightarrow> (\<forall>i<num_vars prog. z i = coeff (decision_variable_values prog') i 0)) \<and>
       (\<forall>z. rows z = num_vars prog \<longrightarrow>
            objective (asm_G prog) (asm_c prog) (decision_variable_values prog')
              \<le> objective (asm_G prog) (asm_c prog) z))"
proof -
  let ?G = "asm_G prog" and ?c = "asm_c prog" and ?A = "asm_A prog" and ?b = "asm_b prog"
  let ?x = "range_space_x E ?G ?c ?A ?b" and ?y = "range_space_lambda E ?G ?c ?A ?b"
  note none = no_constraints[OF assms(2)]
  note ok = range_space_kkt_shape(1)[OF asm_G_dims[of prog] asm_A_dims[THEN conjunct1]
      asm_A_dims[THEN conjunct2, THEN conjunct1] asm_c_dims(2)[of prog] assms(3,4) none(4) assms(5,6)]
  note shape = range_space_kkt_shape(2-7)[OF asm_G_dims[of prog] asm_A_dims[THEN conjunct1]
      asm_A_dims[THEN conjunct2, THEN conjunct1] asm_c_dims(2)[of prog] assms(3,4) none(4) assms(5,6),
      where b = "asm_b prog"]
  have Gx: "\<forall>i<num_vars prog. coeff (mat_mul ?G ?x) i 0 = - coeff ?c i 0"
    using shape(6) by (simp add: coeff_mat_mul[of "transpose_m ?A"] none eq_neg_iff_add_eq_0)
  have PD: "\<forall>z. (\<exists>i<num_vars prog. z i \<noteq> 0) \<longrightarrow>
              0 < (\<Sum>i<num_vars prog. z i * (\<Sum>j<num_vars prog. coeff ?G i j * z j))"
    using assms(4) by (simp add: positive_definite_def quadratic_form_def asm_G_dims)
  have uniq: "\<forall>i<num_vars prog. z i = coeff ?x i 0"
    if "\<forall>i<num_vars prog. (\<Sum>j<num_vars prog. coeff ?G i j * z j) = - coeff ?c i 0" for z
  proof -
    have "\<forall>i<num_vars prog. (\<Sum>j<num_vars prog. coeff ?G i j * coeff ?x j 0) = - coeff ?c i 0"
      using Gx by (simp add: coeff_mat_mul asm_G_dims)
    from pd_unique[OF PD this that] show ?thesis .
  qed
  have least: "objective ?G ?c ?x \<le> objective ?G ?c z" if "rows z = num_vars prog" for z
  proof -
    have symf: "\<forall>i<num_vars prog. \<forall>j<num_vars prog. coeff ?G i j = coeff ?G j i"
      using assms(3) by (simp add: symmetric_def asm_G_dims)
    have "\<forall>i<num_vars prog. (\<Sum>j<num_vars prog. coeff ?G i j * coeff ?x j 0) = - coeff ?c i 0"
      using Gx by (simp add: coeff_mat_mul asm_G_dims)
    from pd_minimum[OF symf PD this, of "\<lambda>i. coeff z i 0"] show ?thesis
      by (simp add: objective_def dot_def coeff_mat_mul asm_G_dims asm_c_dims shape(1) that)
  qed
  from assms(1) have "Solve armed E uA ub prog = solved_with prog (chosen_x E uA ub prog)"
    by (simp add: Solve_eq assertions_cases)
  moreover have "chosen_x E uA ub prog = ?x" using ok by (simp add: chosen_x_def)
  ultimately show ?thesis
    using ok shape(1,3) none Gx uniq least by (simp add: solved_with_def)
qed

lemma linear_term_G: "coeff (asm_G linear_term_prog) p q = (if p = 0 \<and> q = 0 then 4 else 0)"
  by (auto simp add: asm_G_spec linear_term_prog_def mk_cost_def scatter_Q_def of_rows_def)

lemma linear_term_c: "coeff (asm_c linear_term_prog) p 0 = (if p = 0 then - 4 else 0)"
  by (auto simp add: asm_c_spec linear_term_prog_def mk_cost_def scatter_b_def of_rows_def)

lemma linear_term_dims:
  "num_vars linear_term_prog = 1" "linear_equality_constraints linear_term_prog = []"
  by (simp_all add: linear_term_prog_def)

lemma linear_term_sym: "symmetric (asm_G linear_term_prog)"
  by (simp add: symmetric_def asm_G_dims linear_term_dims)

lemma linear_term_pd: "positive_definite (asm_G linear_term_prog)"
  unfolding positive_definite_def quadratic_form_def
  by (auto simp add: asm_G_dims linear_term_dims linear_term_G zero_less_mult_iff)

lemma linear_term_llt_info: "llt_info example_eigen (asm_G linear_term_prog) = Success"
  by (simp add: example_llt_info asm_G_dims linear_term_dims linear_term_G)

lemma linear_term_llt: "llt_exact example_eigen (asm_G linear_term_prog)"
  unfolding llt_exact_def solves_def
  by (simp add: linear_term_llt_info linear_term_pd asm_G_dims linear_term_dims coeff_mat_mul
      linear_term_G)

lemma linear_term_qr:
  "qr_exact example_eigen (mat_mul (asm_A linear_term_prog)
     (llt_solve example_eigen (asm_G linear_term_prog) (transpose_m (asm_A linear_term_prog))))"
  unfolding qr_exact_def solves_def
  by (simp add: no_constraints[OF linear_term_dims(2)])

theorem unconstrained_minimizer_witness:
  "llt_info example_eigen (asm_G linear_term_prog) = Success \<and>
   rows (asm_A linear_term_prog) = 0 \<and>
   (\<exists>prog'. Solve True example_eigen garbage0 garbage1 linear_term_prog = Inr (kSolutionFound, prog') \<and>
      coeff (decision_variable_values prog') 0 0 = 1)"
proof -
  have s: "True \<longrightarrow> supported linear_term_prog" by (simp add: supported_examples)
  from unconstrained_minimizer[OF s linear_term_dims(2) linear_term_sym linear_term_pd
      linear_term_llt linear_term_qr, of garbage0 garbage1]
  obtain prog' where
    ok: "llt_info example_eigen (asm_G linear_term_prog) = Success"
      "rows (asm_A linear_term_prog) = 0"
    and S: "Solve True example_eigen garbage0 garbage1 linear_term_prog = Inr (kSolutionFound, prog')"
    and G: "\<forall>i<num_vars linear_term_prog.
          coeff (mat_mul (asm_G linear_term_prog) (decision_variable_values prog')) i 0
            = - coeff (asm_c linear_term_prog) i 0"
    by blast
  from G have "coeff (decision_variable_values prog') 0 0 = 1"
    by (simp add: linear_term_dims coeff_mat_mul asm_G_dims linear_term_G linear_term_c)
  with ok S show ?thesis by blast
qed

section \<open>The reported cost\<close>

lemma reported_cost_formula:
  assumes "rows c = rows x"
  shows "reported_cost G c x = objective G c x - 1/2 * dot c x"
proof -
  have "dot x (mat_add (mat_mul G x) c) = dot x (mat_mul G x) + dot c x"
    using assms by (simp add: dot_def distrib_left sum.distrib mult.commute)
  then show ?thesis by (simp add: reported_cost_def objective_def)
qed

text \<open>
  Claim C1 says that the reported optimal cost is \<open>1/2 x'Gx + c'x\<close> at the returned \<open>x\<close>.
  Lines 116 and 149 compute \<open>0.5 * x.dot(G * x + c)\<close>, which is \<open>1/2 x'Gx + 1/2 c'x\<close>
  (\<open>reported_cost_formula\<close>): the linear term is halved.  On the program that minimises
  \<open>2 x^2 - 4 x\<close> without constraints, with exact decompositions, \<open>Solve\<close> returns
  \<open>x = 1\<close> and reports the cost \<open>0\<close>, while the objective at \<open>x = 1\<close> is \<open>- 2\<close>.
\<close>

theorem reported_cost_is_not_objective:
  assumes "llt_exact E (asm_G linear_term_prog)"
    and "qr_exact E (mat_mul (asm_A linear_term_prog)
           (llt_solve E (asm_G linear_term_prog) (transpose_m (asm_A linear_term_prog))))"
  shows "\<exists>prog'. Solve armed E uA ub linear_term_prog = Inr (kSolutionFound, prog') \<and>
           rows (decision_variable_values prog') = 1 \<and>
           coeff (decision_variable_values prog') 0 0 = 1 \<and>
           optimal_cost prog' = 0 \<and>
           objective (asm_G linear_term_prog) (asm_c linear_term_prog)
             (decision_variable_values prog') = - 2"
proof -
  let ?P = linear_term_prog
  let ?G = "asm_G ?P" and ?c = "asm_c ?P" and ?A = "asm_A ?P" and ?b = "asm_b ?P"
  let ?x = "range_space_x E ?G ?c ?A ?b"
  note none = no_constraints[OF linear_term_dims(2)]
  note ok = range_space_kkt_shape(1)[OF asm_G_dims[of ?P] asm_A_dims[THEN conjunct1]
      asm_A_dims[THEN conjunct2, THEN conjunct1] asm_c_dims(2)[of ?P] linear_term_sym
      linear_term_pd none(4) assms]
  note shape = range_space_kkt_shape(2-7)[OF asm_G_dims[of ?P] asm_A_dims[THEN conjunct1]
      asm_A_dims[THEN conjunct2, THEN conjunct1] asm_c_dims(2)[of ?P] linear_term_sym
      linear_term_pd none(4) assms, where b = "?b"]
  have r: "rows ?x = 1" using shape(1) by (simp add: linear_term_dims)
  have x: "coeff ?x 0 0 = 1"
    using shape(6)
    by (simp add: linear_term_dims coeff_mat_mul asm_G_dims none linear_term_G linear_term_c)
  have cost: "reported_cost ?G ?c ?x = 0"
    by (simp add: reported_cost_def dot_def r coeff_mat_mul asm_G_dims linear_term_dims
        linear_term_G linear_term_c x)
  have obj: "objective ?G ?c ?x = - 2"
    by (simp add: objective_def dot_def r coeff_mat_mul asm_G_dims asm_c_dims linear_term_dims
        linear_term_G linear_term_c x)
  have "Solve armed E uA ub ?P = solved_with ?P (chosen_x E uA ub ?P)"
    by (simp add: Solve_eq assertions_cases supported_examples)
  moreover have "chosen_x E uA ub ?P = ?x" using ok by (simp add: chosen_x_def)
  ultimately show ?thesis
    using r x cost obj by (simp add: solved_with_def)
qed

theorem reported_cost_is_not_objective_witness:
  "\<exists>prog'. Solve True example_eigen garbage0 garbage1 linear_term_prog = Inr (kSolutionFound, prog') \<and>
           optimal_cost prog' = 0 \<and>
           objective (asm_G linear_term_prog) (asm_c linear_term_prog)
             (decision_variable_values prog') = - 2"
  using reported_cost_is_not_objective[OF linear_term_llt linear_term_qr, of True garbage0 garbage1]
  by blast

section \<open>The degenerate example\<close>

lemma degenerate_A: "coeff (asm_A degenerate_prog) i j = (if i = j \<and> i < 2 then 1 else 0)"
  by (auto simp add: less_Suc_eq asm_A_def assemble_constraints_def degenerate_prog_def
      num_constraints_def add_equality_constraint_def mk_equality_def of_rows_def Let_def
      set_block_def col_def segment_def Zero_def eval_nat_numeral)

lemma degenerate_b: "coeff (asm_b degenerate_prog) i 0 = (if i = 0 then 3 else if i = 1 then 4 else 0)"
  by (auto simp add: less_Suc_eq asm_b_def assemble_constraints_def degenerate_prog_def
      num_constraints_def add_equality_constraint_def mk_equality_def of_rows_def Let_def
      set_block_def col_def segment_def Zero_def eval_nat_numeral)

lemma degenerate_sym: "symmetric (asm_G degenerate_prog)"
  by (simp add: symmetric_def asm_G_dims degenerate_G)

lemma degenerate_not_pd: "\<not> positive_definite (asm_G degenerate_prog)"
proof
  assume "positive_definite (asm_G degenerate_prog)"
  then have "(\<exists>i<2::nat. (1::real) \<noteq> 0) \<longrightarrow> 0 < quadratic_form (asm_G degenerate_prog) (\<lambda>i. 1)"
    unfolding positive_definite_def by (simp add: asm_G_dims degenerate_dims)
  moreover have "\<exists>i<2::nat. (1::real) \<noteq> 0" by (simp add: exI[of _ 0])
  ultimately show False by (simp add: quadratic_form_def degenerate_G)
qed

lemma degenerate_system:
  "augmented_matrix 2 2 (asm_G degenerate_prog) (asm_A degenerate_prog) =
     \<lparr>rows = 4, cols = 4,
      coeff = (\<lambda>i j. if i = 0 \<and> j = 2 \<or> i = 1 \<and> j = 3 then - 1
                      else if i = 2 \<and> j = 0 \<or> i = 3 \<and> j = 1 then 1 else 0)\<rparr>"
  by (auto simp add: augmented_matrix_def degenerate_G degenerate_A fun_eq_iff)

lemma degenerate_rhs:
  "augmented_rhs 2 2 (asm_c degenerate_prog) (asm_b degenerate_prog) =
     \<lparr>rows = 4, cols = 1,
      coeff = (\<lambda>i j. if j = 0 \<and> i = 2 then 3 else if j = 0 \<and> i = 3 then 4 else 0)\<rparr>"
  by (auto simp add: augmented_rhs_def degenerate_c degenerate_b fun_eq_iff)


lemma degenerate_solution:
  "solves (augmented_matrix 2 2 (asm_G degenerate_prog) (asm_A degenerate_prog))
     (of_rows 1 [[3], [4], [0], [0]])
     (augmented_rhs 2 2 (asm_c degenerate_prog) (asm_b degenerate_prog))"
  unfolding solves_def degenerate_system degenerate_rhs
  by (simp add: of_rows_def coeff_mat_mul eval_nat_numeral All_less_Suc)

text \<open>
  Claim C7.  For the program with two variables, no cost and the constraints \<open>x1 = 3\<close>
  and \<open>x2 = 4\<close>, the assembled problem is \<open>G = 0\<close>, \<open>c = 0\<close>, \<open>A\<close> the identity and
  \<open>b = [3, 4]\<close>; with exact decompositions the factorization test fails, \<open>Solve\<close> takes
  Strategy B and returns \<open>x = [3, 4]\<close> with the reported cost \<open>0\<close>.
\<close>

theorem degenerate_example:
  assumes "llt_exact E (asm_G degenerate_prog)"
    and "svd_exact E (augmented_matrix 2 2 (asm_G degenerate_prog) (asm_A degenerate_prog))"
  shows "num_vars degenerate_prog = 2 \<and> num_constraints degenerate_prog = 2 \<and>
    (\<forall>i j. coeff (asm_G degenerate_prog) i j = 0) \<and>
    (\<forall>i. coeff (asm_c degenerate_prog) i 0 = 0) \<and>
    (\<forall>i j. coeff (asm_A degenerate_prog) i j = (if i = j \<and> i < 2 then 1 else 0)) \<and>
    coeff (asm_b degenerate_prog) 0 0 = 3 \<and> coeff (asm_b degenerate_prog) 1 0 = 4 \<and>
    llt_info E (asm_G degenerate_prog) \<noteq> Success \<and>
    (\<exists>prog'. Solve armed E uA ub degenerate_prog = Inr (kSolutionFound, prog') \<and>
       decision_variable_values prog' =
         strategy_B (svd_solve E) 2 2 (asm_G degenerate_prog) (asm_c degenerate_prog)
           (asm_A degenerate_prog) (asm_b degenerate_prog) \<and>
       rows (decision_variable_values prog') = 2 \<and>
       coeff (decision_variable_values prog') 0 0 = 3 \<and>
       coeff (decision_variable_values prog') 1 0 = 4 \<and>
       optimal_cost prog' = 0)"
proof -
  let ?P = degenerate_prog
  let ?G = "asm_G ?P" and ?c = "asm_c ?P" and ?A = "asm_A ?P" and ?b = "asm_b ?P"
  let ?M = "augmented_matrix 2 2 ?G ?A" and ?r = "augmented_rhs 2 2 ?c ?b"
  let ?sol = "svd_solve E ?M ?r"
  let ?x = "strategy_B (svd_solve E) 2 2 ?G ?c ?A ?b"
  from assms(1) degenerate_sym degenerate_not_pd
  have fail: "llt_info E ?G \<noteq> Success" by (simp add: llt_exact_def)
  define s where "s = coeff ?sol"
  from assms(2) degenerate_solution have "solves ?M ?sol ?r"
    unfolding svd_exact_def by blast
  then have "\<forall>i<4. (\<Sum>k<4. coeff ?M i k * s k 0) = coeff ?r i 0"
    unfolding solves_def s_def by (simp add: coeff_mat_mul degenerate_system degenerate_rhs)
  then have "\<forall>i<4::nat. (\<Sum>k<4::nat. (if i = 0 \<and> k = 2 \<or> i = 1 \<and> k = 3 then - 1
                      else if i = 2 \<and> k = 0 \<or> i = 3 \<and> k = 1 then 1 else 0) * s k 0)
                = (if i = 2 then 3 else if i = 3 then 4 else (0::real))"
    by (simp add: degenerate_system degenerate_rhs)
  then have "s 0 0 = 3" "s 1 0 = 4"
    by (simp_all add: eval_nat_numeral All_less_Suc)
  then have sol: "coeff ?sol 0 0 = 3" "coeff ?sol 1 0 = 4"
    by (simp_all add: s_def)
  have x: "rows ?x = 2" "coeff ?x 0 0 = 3" "coeff ?x 1 0 = 4"
    using sol by (simp_all add: strategy_B_def segment_def)
  have cost: "reported_cost ?G ?c ?x = 0"
    by (simp add: reported_cost_def dot_def x(1) coeff_mat_mul degenerate_G degenerate_c)
  have "Solve armed E uA ub ?P = solved_with ?P (chosen_x E uA ub ?P)"
    by (simp add: Solve_eq assertions_cases supported_examples)
  moreover have "chosen_x E uA ub ?P = ?x"
    using fail by (simp add: chosen_x_strategies degenerate_dims)
  ultimately show ?thesis
    using fail x cost
    by (simp add: solved_with_def degenerate_dims degenerate_G degenerate_c degenerate_A
        degenerate_b)
qed

lemma degenerate_llt: "llt_exact example_eigen (asm_G degenerate_prog)"
  unfolding llt_exact_def
  by (simp add: degenerate_llt_info degenerate_not_pd)

lemma degenerate_svd:
  "svd_exact example_eigen (augmented_matrix 2 2 (asm_G degenerate_prog) (asm_A degenerate_prog))"
  unfolding svd_exact_def solves_def degenerate_system
  by (simp add: coeff_mat_mul eval_nat_numeral All_less_Suc)

theorem degenerate_example_witness:
  "\<exists>prog'. Solve True example_eigen garbage0 garbage1 degenerate_prog = Inr (kSolutionFound, prog') \<and>
     coeff (decision_variable_values prog') 0 0 = 3 \<and>
     coeff (decision_variable_values prog') 1 0 = 4 \<and>
     optimal_cost prog' = 0"
  using degenerate_example[OF degenerate_llt degenerate_svd, of True garbage0 garbage1]
  by blast

end
